theory Spec2Isabelle
  imports Complex_Main "HOL-Library.AList" "HOL-Library.Multiset"
    "HOL-Library.Char_ord" "HOL-Library.List_Lexorder"
begin

section \<open>The retrieval program: inverted index and four query models\<close>

text \<open>
  A shallow embedding of \<^verbatim>\<open>retrieve.py\<close>.

  \<^item> A Python \<^verbatim>\<open>dict\<close> is an association list in insertion order, written
    with \<open>AList.update\<close> (an existing key keeps its place, a new key goes to the end)
    and read with \<open>map_of\<close>.
  \<^item> A Python \<^verbatim>\<open>set\<close> of document IDs is a list without repetitions. Python
    leaves the iteration order of a set open; the model fixes one order, and no
    theorem below depends on which.
  \<^item> Counts are Python's unbounded integers and never negative: \<open>nat\<close>.
  \<^item> A score is a Python number: the int \<open>0\<close> or \<open>1\<close> it is initialised with, or a
    float once a float has been added to it. The model keeps the kind of the number,
    since \<^verbatim>\<open>0\<close> and \<^verbatim>\<open>0.0\<close> are printed differently. A float is represented by the
    real number it stands for: \<^verbatim>\<open>/\<close> is real division, \<^verbatim>\<open>math.log\<close> is \<open>ln\<close>, and the
    rounding of IEEE double arithmetic is not represented.
  \<^item> An exception is a value of \<open>py_error\<close>; a function that may raise returns
    \<open>py_error + 'a\<close>.
  \<^item> The cache fields of \<^verbatim>\<open>Index\<close> are written by the accessors, so an accessor
    that reads the cache returns the index as well.
  \<^item> A character is a code point below 256; strings are compared by code point,
    as Python compares \<^verbatim>\<open>str\<close>.
\<close>

datatype py_error = ZeroDivisionError | ValueError | IndexError

subsection \<open>Numbers\<close>

datatype py_num = PyInt int | PyFloat real

fun num_val :: "py_num \<Rightarrow> real" where
  "num_val (PyInt i) = real_of_int i"
| "num_val (PyFloat x) = x"

text \<open>\<^verbatim>\<open>score += x\<close> for a float \<open>x\<close>: the sum of an int or a float with a float is a float.\<close>

definition iadd_float :: "py_num \<Rightarrow> real \<Rightarrow> py_num" where
  "iadd_float sc x = PyFloat (num_val sc + x)"

text \<open>\<^verbatim>\<open>score = 0\<close> followed by \<^verbatim>\<open>score += x\<close> for each \<open>x\<close> of a list of floats.\<close>

definition accumulate_from_zero :: "real list \<Rightarrow> py_num" where
  "accumulate_from_zero xs = fold (\<lambda>x sc. iadd_float sc x) xs (PyInt 0)"

subsection \<open>Strings\<close>

text \<open>\<^verbatim>\<open>str.isspace\<close> on the code points below 256.\<close>

definition isspace :: "char \<Rightarrow> bool" where
  "isspace c = ((of_char c :: nat) \<in> {9, 10, 11, 12, 13, 28, 29, 30, 31, 32, 133, 160})"

text \<open>
  \<^verbatim>\<open>str.split()\<close> without arguments: the maximal runs of characters that are not
  white space, in order; no empty token.
\<close>

fun split_from :: "string \<Rightarrow> string \<Rightarrow> string list" where
  "split_from cur [] = (if cur = [] then [] else [cur])"
| "split_from cur (c # cs) =
     (if isspace c then (if cur = [] then split_from [] cs else cur # split_from [] cs)
      else split_from (cur @ [c]) cs)"

definition str_split :: "string \<Rightarrow> string list" where
  "str_split s = split_from [] s"

text \<open>
  \<^verbatim>\<open>str.upper\<close>. The program compares the result with the ASCII literals
  \<^verbatim>\<open>'AND'\<close>, \<^verbatim>\<open>'OR'\<close>, \<^verbatim>\<open>'QL'\<close> and \<^verbatim>\<open>'BM25'\<close> only; no character outside
  \<^verbatim>\<open>a\<close>..\<^verbatim>\<open>z\<close> is mapped by Python to one of their letters, so the other
  characters are left as they are.
\<close>

definition upper_char :: "char \<Rightarrow> char" where
  "upper_char c =
     (if 97 \<le> (of_char c :: nat) \<and> (of_char c :: nat) \<le> 122
      then char_of (of_char c - (32 :: nat)) else c)"

definition upper :: "string \<Rightarrow> string" where
  "upper s = map upper_char s"

subsection \<open>The index\<close>

record document =
  storyID :: string
  doc_text :: string

type_synonym postings = "(string \<times> nat list) list"

record Index =
  index :: "(string \<times> postings) list"
  documents :: "(string \<times> document) list"
  totalUniqueTokens :: "nat option"
  totalTokenCount :: "nat option"
  docCount :: nat

definition Index_init :: Index where
  "Index_init =
     \<lparr>index = [], documents = [], totalUniqueTokens = None, totalTokenCount = None,
      docCount = 0\<rparr>"

text \<open>
  One turn of the loop of \<^verbatim>\<open>Index.add\<close> on the inverted index: the entry of the token
  is created when absent, inside it the position list of the document is created when
  absent, and \<open>i\<close> is appended to that list.
\<close>

definition add_token :: "string \<Rightarrow> string \<Rightarrow> nat \<Rightarrow> (string \<times> postings) list
    \<Rightarrow> (string \<times> postings) list" where
  "add_token sid token i ix =
     (let ps = (case map_of ix token of None \<Rightarrow> [] | Some ps \<Rightarrow> ps);
          pos = (case map_of ps sid of None \<Rightarrow> [] | Some pos \<Rightarrow> pos)
      in AList.update token (AList.update sid (pos @ [i]) ps) ix)"

fun add_tokens :: "string \<Rightarrow> string list \<Rightarrow> nat \<Rightarrow> (string \<times> postings) list
    \<Rightarrow> (string \<times> postings) list" where
  "add_tokens sid [] i ix = ix"
| "add_tokens sid (token # ts) i ix = add_tokens sid ts (i + 1) (add_token sid token i ix)"

definition Index_add :: "Index \<Rightarrow> document \<Rightarrow> Index" where
  "Index_add self doc =
     self\<lparr>docCount := docCount self + 1,
          documents := AList.update (storyID doc) doc (documents self),
          index := add_tokens (storyID doc) (str_split (doc_text doc)) 0 (index self)\<rparr>"

definition getPostings :: "Index \<Rightarrow> string \<Rightarrow> postings" where
  "getPostings self token = (case map_of (index self) token of Some ps \<Rightarrow> ps | None \<Rightarrow> [])"

definition getDocumentIDsForToken :: "Index \<Rightarrow> string \<Rightarrow> string list" where
  "getDocumentIDsForToken self token =
     (case map_of (index self) token of Some ps \<Rightarrow> map fst ps | None \<Rightarrow> [])"

definition getTokenDocumentCount :: "Index \<Rightarrow> string \<Rightarrow> nat" where
  "getTokenDocumentCount self token =
     (case map_of (index self) token of Some ps \<Rightarrow> length ps | None \<Rightarrow> 0)"

definition getDocumentLength :: "Index \<Rightarrow> string \<Rightarrow> nat" where
  "getDocumentLength self d =
     (case map_of (documents self) d of
        Some doc \<Rightarrow> length (str_split (doc_text doc))
      | None \<Rightarrow> 0)"

definition getTokenFrequencyInDocument :: "Index \<Rightarrow> string \<Rightarrow> string \<Rightarrow> nat" where
  "getTokenFrequencyInDocument self token d =
     (case map_of (index self) token of
        Some ps \<Rightarrow> (case map_of ps d of Some pos \<Rightarrow> length pos | None \<Rightarrow> 0)
      | None \<Rightarrow> 0)"

text \<open>
  \<^verbatim>\<open>sum([len(self.index[token][document]) for document in self.index[token]])\<close>:
  the keys of the entry are walked and each is looked up again.
\<close>

definition getTotalTokenFrequency :: "Index \<Rightarrow> string \<Rightarrow> nat" where
  "getTotalTokenFrequency self token =
     (case map_of (index self) token of
        Some ps \<Rightarrow>
          sum_list (map (\<lambda>d. case map_of ps d of Some pos \<Rightarrow> length pos | None \<Rightarrow> 0)
                        (map fst ps))
      | None \<Rightarrow> 0)"

definition getUniqueTotalTokenCount :: "Index \<Rightarrow> nat \<times> Index" where
  "getUniqueTotalTokenCount self =
     (case totalUniqueTokens self of
        None \<Rightarrow> (length (index self), self\<lparr>totalUniqueTokens := Some (length (index self))\<rparr>)
      | Some n \<Rightarrow> (n, self))"

definition getTotalTokenCount :: "Index \<Rightarrow> nat \<times> Index" where
  "getTotalTokenCount self =
     (case totalTokenCount self of
        None \<Rightarrow>
          (let s = sum_list (map (getTotalTokenFrequency self) (map fst (index self)))
           in (s, self\<lparr>totalTokenCount := Some s\<rparr>))
      | Some n \<Rightarrow> (n, self))"

definition getNumberOfDocuments :: "Index \<Rightarrow> nat" where
  "getNumberOfDocuments self = docCount self"

text \<open>
  \<^verbatim>\<open>self.getTotalTokenCount() / self.getNumberOfDocuments()\<close>: both operands are
  evaluated (the first fills the cache), then the division raises on a zero divisor.
\<close>

definition getAverageDocumentLength :: "Index \<Rightarrow> (py_error + real) \<times> Index" where
  "getAverageDocumentLength self =
     (let (t, self') = getTotalTokenCount self;
          n = getNumberOfDocuments self'
      in (if n = 0 then Inl ZeroDivisionError else Inr (real t / real n), self'))"

definition buildIndex :: "document list \<Rightarrow> Index" where
  "buildIndex corpus = fold (\<lambda>doc ix. Index_add ix doc) corpus Index_init"

subsection \<open>Query results\<close>

record QueryResult =
  document :: string
  score :: py_num

record QueryResults =
  results :: "QueryResult list"
  qmethod :: string

definition QueryResults_init :: "string \<Rightarrow> QueryResults" where
  "QueryResults_init m = \<lparr>results = [], qmethod = m\<rparr>"

definition QueryResults_add :: "QueryResults \<Rightarrow> string \<Rightarrow> py_num \<Rightarrow> QueryResults" where
  "QueryResults_add self d s = self\<lparr>results := results self @ [\<lparr>document = d, score = s\<rparr>]\<rparr>"

subsection \<open>The boolean models\<close>

text \<open>The first loop of \<^verbatim>\<open>runANDQuery\<close>, with its flag \<^verbatim>\<open>firstIteration\<close>.\<close>

fun and_documents :: "Index \<Rightarrow> string list \<Rightarrow> string list \<Rightarrow> bool \<Rightarrow> string list" where
  "and_documents ix [] docs firstIteration = docs"
| "and_documents ix (word # ws) docs firstIteration =
     (let relevantDocs = getDocumentIDsForToken ix word
      in if firstIteration then and_documents ix ws (remdups relevantDocs) False
         else and_documents ix ws (filter (\<lambda>d. d \<in> set relevantDocs) docs) False)"

text \<open>
  The first loop of \<^verbatim>\<open>runORQuery\<close>, \<^verbatim>\<open>runQLQuery\<close> and \<^verbatim>\<open>runBM25Query\<close>:
  \<^verbatim>\<open>documents = documents.union(relevantDocs)\<close> for each word.
\<close>

fun or_documents :: "Index \<Rightarrow> string list \<Rightarrow> string list \<Rightarrow> string list" where
  "or_documents ix [] docs = docs"
| "or_documents ix (word # ws) docs =
     or_documents ix ws (remdups (docs @ getDocumentIDsForToken ix word))"

definition runANDQuery :: "Index \<Rightarrow> string list \<Rightarrow> QueryResults" where
  "runANDQuery ix qwords =
     fold (\<lambda>d res. QueryResults_add res d (PyInt 1)) (and_documents ix qwords [] True)
       (QueryResults_init ''AND'')"

definition runORQuery :: "Index \<Rightarrow> string list \<Rightarrow> QueryResults" where
  "runORQuery ix qwords =
     fold (\<lambda>d res. QueryResults_add res d (PyInt 1)) (or_documents ix qwords [])
       (QueryResults_init ''OR'')"

subsection \<open>The ranked models\<close>

text \<open>
  A true division \<^verbatim>\<open>a / b\<close> raises on a zero divisor, and \<^verbatim>\<open>math.log\<close> raises on
  an argument that is not positive.
\<close>

definition py_div :: "real \<Rightarrow> real \<Rightarrow> py_error + real" where
  "py_div a b = (if b = 0 then Inl ZeroDivisionError else Inr (a / b))"

definition py_log :: "real \<Rightarrow> py_error + real" where
  "py_log x = (if x \<le> 0 then Inl ValueError else Inr (ln x))"

text \<open>
  The inner loop of \<^verbatim>\<open>runQLQuery\<close> for one document. Every turn calls
  \<^verbatim>\<open>getTotalTokenCount\<close>, which may fill the cache of the index.
\<close>

fun ql_words :: "Index \<Rightarrow> string \<Rightarrow> real \<Rightarrow> string list \<Rightarrow> py_num
    \<Rightarrow> py_error + (py_num \<times> Index)" where
  "ql_words ix d u [] sc = Inr (sc, ix)"
| "ql_words ix d u (word # ws) sc =
     (let (total, ix') = getTotalTokenCount ix
      in case py_div (real (getTotalTokenFrequency ix word)) (real total) of
           Inl e \<Rightarrow> Inl e
         | Inr p \<Rightarrow>
             (let numerator = real (getTokenFrequencyInDocument ix word d) + u * p;
                  denominator = real (getDocumentLength ix' d) + u
              in case py_div numerator denominator of
                   Inl e \<Rightarrow> Inl e
                 | Inr q \<Rightarrow>
                     (case py_log q of
                        Inl e \<Rightarrow> Inl e
                      | Inr l \<Rightarrow> ql_words ix' d u ws (iadd_float sc l))))"

fun ql_documents :: "Index \<Rightarrow> string list \<Rightarrow> real \<Rightarrow> string list \<Rightarrow> QueryResults
    \<Rightarrow> py_error + (QueryResults \<times> Index)" where
  "ql_documents ix qwords u [] res = Inr (res, ix)"
| "ql_documents ix qwords u (d # ds) res =
     (case ql_words ix d u qwords (PyInt 0) of
        Inl e \<Rightarrow> Inl e
      | Inr (s, ix') \<Rightarrow> ql_documents ix' qwords u ds (QueryResults_add res d s))"

definition runQLQuery_u :: "Index \<Rightarrow> string list \<Rightarrow> real
    \<Rightarrow> py_error + (QueryResults \<times> Index)" where
  "runQLQuery_u ix qwords u =
     ql_documents ix qwords u (or_documents ix qwords []) (QueryResults_init ''QL'')"

text \<open>The call with the default \<^verbatim>\<open>u = 300\<close>, the only one the program makes.\<close>

definition runQLQuery :: "Index \<Rightarrow> string list \<Rightarrow> py_error + (QueryResults \<times> Index)" where
  "runQLQuery ix qwords = runQLQuery_u ix qwords 300"

text \<open>
  The inner loop of \<^verbatim>\<open>runBM25Query\<close> for one document. The two \<^verbatim>\<open>print\<close>
  statements for the word \<^verbatim>\<open>'united'\<close> in document \<^verbatim>\<open>'24323-art19'\<close> write to the
  standard output only and are left out.
\<close>

fun bm25_words :: "Index \<Rightarrow> string \<Rightarrow> real \<Rightarrow> real \<Rightarrow> real \<Rightarrow> string list \<Rightarrow> py_num
    \<Rightarrow> py_error + py_num" where
  "bm25_words ix d k1 k2 bigK [] sc = Inr sc"
| "bm25_words ix d k1 k2 bigK (word # ws) sc =
     (let q_fi = 1;
          f_i = real (getTokenFrequencyInDocument ix word d);
          n_i = real (getTokenDocumentCount ix word);
          bigN = real (getNumberOfDocuments ix)
      in case py_div (bigN - n_i + 0.5) (n_i + 0.5) of
           Inl e \<Rightarrow> Inl e
         | Inr x \<Rightarrow>
        (case py_log x of
           Inl e \<Rightarrow> Inl e
         | Inr term1 \<Rightarrow>
        (case py_div ((k1 + 1) * f_i) (bigK + f_i) of
           Inl e \<Rightarrow> Inl e
         | Inr term2 \<Rightarrow>
        (case py_div ((k2 + 1) * q_fi) (k2 + q_fi) of
           Inl e \<Rightarrow> Inl e
         | Inr term3 \<Rightarrow>
             bm25_words ix d k1 k2 bigK ws
               (if term1 \<noteq> 0 \<and> term2 \<noteq> 0 \<and> term3 \<noteq> 0
                then iadd_float sc (term1 * term2 * term3) else sc)))))"

fun bm25_documents :: "Index \<Rightarrow> string list \<Rightarrow> real \<Rightarrow> real \<Rightarrow> real \<Rightarrow> string list
    \<Rightarrow> QueryResults \<Rightarrow> py_error + (QueryResults \<times> Index)" where
  "bm25_documents ix qwords k1 k2 b [] res = Inr (res, ix)"
| "bm25_documents ix qwords k1 k2 b (d # ds) res =
     (let len = real (getDocumentLength ix d);
          (avg, ix') = getAverageDocumentLength ix
      in case avg of
           Inl e \<Rightarrow> Inl e
         | Inr a \<Rightarrow>
        (case py_div len a of
           Inl e \<Rightarrow> Inl e
         | Inr r \<Rightarrow>
        (let bigK = k1 * ((1 - b) + b * r)
         in case bm25_words ix' d k1 k2 bigK qwords (PyInt 0) of
              Inl e \<Rightarrow> Inl e
            | Inr s \<Rightarrow>
                bm25_documents ix' qwords k1 k2 b ds (QueryResults_add res d s))))"

definition runBM25Query_k :: "Index \<Rightarrow> string list \<Rightarrow> real \<Rightarrow> real \<Rightarrow> real
    \<Rightarrow> py_error + (QueryResults \<times> Index)" where
  "runBM25Query_k ix qwords k1 k2 b =
     bm25_documents ix qwords k1 k2 b (or_documents ix qwords [])
       (QueryResults_init ''BM25'')"

text \<open>The call with the defaults \<^verbatim>\<open>k1 = 1.8\<close>, \<^verbatim>\<open>k2 = 5\<close>, \<^verbatim>\<open>b = 0.75\<close>.\<close>

definition runBM25Query :: "Index \<Rightarrow> string list \<Rightarrow> py_error + (QueryResults \<times> Index)" where
  "runBM25Query ix qwords = runBM25Query_k ix qwords 1.8 5 0.75"

subsection \<open>Ranking\<close>

text \<open>
  A row of the output before it is formatted: the query name, the document, the rank,
  the score and \<^verbatim>\<open>runTag + self.method\<close>. The f-string pads these fields, prints the
  constant \<^verbatim>\<open>skip\<close> and prints the score through \<^verbatim>\<open>round(score, 4)\<close>, which gives
  an int for an int and a float for a float: the int \<open>0\<close> is printed \<^verbatim>\<open>0\<close>, the float
  \<^verbatim>\<open>0.0\<close>.
\<close>

record row =
  row_queryName :: string
  row_document :: string
  row_rank :: nat
  row_score :: py_num
  row_tag :: string

fun rank_rows :: "string \<Rightarrow> string \<Rightarrow> nat \<Rightarrow> QueryResult list \<Rightarrow> row list" where
  "rank_rows qname tag rank [] = []"
| "rank_rows qname tag rank (r # rs) =
     \<lparr>row_queryName = qname, row_document = document r, row_rank = rank,
      row_score = score r, row_tag = tag\<rparr> # rank_rows qname tag (rank + 1) rs"

text \<open>
  \<^verbatim>\<open>list.sort\<close> is stable, also with \<^verbatim>\<open>reverse=True\<close>, where elements with equal
  keys keep their order: that is the stable ascending sort on the negated score. Ints
  and floats are compared by their value.
  The method sorts \<^verbatim>\<open>self.results\<close> in place, so the object is returned too.
\<close>

definition getFinalResults :: "QueryResults \<Rightarrow> string \<Rightarrow> string \<Rightarrow> row list \<times> QueryResults" where
  "getFinalResults self qname runTag =
     (let sorted_results =
            (if qmethod self = ''AND'' \<or> qmethod self = ''OR''
             then sort_key document (results self)
             else sort_key (\<lambda>x. - num_val (score x)) (results self))
      in (rank_rows qname (runTag @ qmethod self) 1 sorted_results,
          self\<lparr>results := sorted_results\<rparr>))"

subsection \<open>The query driver\<close>

text \<open>
  \<^verbatim>\<open>runQueries\<close> from the point where the list \<^verbatim>\<open>queries\<close> has been read. The
  first loop appends one \<^verbatim>\<open>QueryResults\<close> for each query whose tag is recognised; the
  second loop walks \<^verbatim>\<open>range(len(queries))\<close> and reads \<^verbatim>\<open>results[i]\<close>, which raises
  \<^verbatim>\<open>IndexError\<close> beyond the end of \<^verbatim>\<open>results\<close>. The value is the rows written to the
  output file and the exception that ended the run, if any.
\<close>

record Query =
  qtype :: string
  queryName :: string
  queryWords :: "string list"

fun dispatch :: "Index \<Rightarrow> Query list \<Rightarrow> QueryResults list
    \<Rightarrow> py_error + (QueryResults list \<times> Index)" where
  "dispatch ix [] res = Inr (res, ix)"
| "dispatch ix (q # qs) res =
     (if upper (qtype q) = ''AND'' then dispatch ix qs (res @ [runANDQuery ix (queryWords q)])
      else if upper (qtype q) = ''OR'' then dispatch ix qs (res @ [runORQuery ix (queryWords q)])
      else if upper (qtype q) = ''QL'' then
        (case runQLQuery ix (queryWords q) of
           Inl e \<Rightarrow> Inl e
         | Inr (r, ix') \<Rightarrow> dispatch ix' qs (res @ [r]))
      else if upper (qtype q) = ''BM25'' then
        (case runBM25Query ix (queryWords q) of
           Inl e \<Rightarrow> Inl e
         | Inr (r, ix') \<Rightarrow> dispatch ix' qs (res @ [r]))
      else dispatch ix qs res)"

fun write_results :: "Query list \<Rightarrow> QueryResults list \<Rightarrow> nat list \<Rightarrow> row list
    \<Rightarrow> row list \<times> py_error option" where
  "write_results queries res [] out = (out, None)"
| "write_results queries res (i # is) out =
     (if i < length res
      then (let (rows, r') = getFinalResults (res ! i) (queryName (queries ! i)) ''cgibbons''
            in write_results queries (res[i := r']) is (out @ rows))
      else (out, Some IndexError))"

definition runQueries :: "Index \<Rightarrow> Query list \<Rightarrow> row list \<times> py_error option" where
  "runQueries ix queries =
     (case dispatch ix queries [] of
        Inl e \<Rightarrow> ([], Some e)
      | Inr (res, ix') \<Rightarrow> write_results queries res [0..<length queries] [])"

subsection \<open>The scoring formulas as the specification writes them\<close>

text \<open>
  Two states of the index hold the same index when they differ in the cache fields at
  most and \<^verbatim>\<open>getTotalTokenCount()\<close> answers the same on both.
\<close>

definition same_index :: "Index \<Rightarrow> Index \<Rightarrow> bool" where
  "same_index a b \<longleftrightarrow>
     index a = index b \<and> documents a = documents b \<and> docCount a = docCount b
     \<and> fst (getTotalTokenCount a) = fst (getTotalTokenCount b)"

text \<open>
  Query likelihood with \<open>\<mu> = 300\<close>: the logarithm of
  \<open>(termFrequency(t,d) + \<mu> * (collectionTermFrequency(t) / totalTokenCount))
  / (documentLength(d) + \<mu>)\<close>, summed over the query terms, once per occurrence.
\<close>

definition spec_ql_term :: "Index \<Rightarrow> string \<Rightarrow> string \<Rightarrow> real" where
  "spec_ql_term ix d t =
     ln ((real (getTokenFrequencyInDocument ix t d)
            + 300 * (real (getTotalTokenFrequency ix t) / real (fst (getTotalTokenCount ix))))
         / (real (getDocumentLength ix d) + 300))"

definition spec_ql_score :: "Index \<Rightarrow> string list \<Rightarrow> string \<Rightarrow> real" where
  "spec_ql_score ix qwords d = (\<Sum>t\<leftarrow>qwords. spec_ql_term ix d t)"

text \<open>
  BM25 with \<open>k1 = 1.8\<close>, \<open>k2 = 5\<close>, \<open>b = 0.75\<close> and the query frequency fixed
  at 1: \<open>K = k1 * ((1 - b) + b * documentLength(d) / averageDocumentLength())\<close>,
  \<open>term1 = log((N - n + 0.5) / (n + 0.5))\<close>, \<open>term2 = (k1 + 1) * f / (K + f)\<close>,
  \<open>term3 = (k2 + 1) * 1 / (k2 + 1)\<close>; the score is the sum of
  \<open>term1 * term2 * term3\<close> over the query terms, once per occurrence.
\<close>

definition spec_averageDocumentLength :: "Index \<Rightarrow> real" where
  "spec_averageDocumentLength ix =
     real (fst (getTotalTokenCount ix)) / real (getNumberOfDocuments ix)"

definition spec_bm25_K :: "Index \<Rightarrow> string \<Rightarrow> real" where
  "spec_bm25_K ix d =
     1.8 * ((1 - 0.75) + 0.75 * (real (getDocumentLength ix d) / spec_averageDocumentLength ix))"

definition spec_bm25_term1 :: "Index \<Rightarrow> string \<Rightarrow> real" where
  "spec_bm25_term1 ix t =
     ln ((real (getNumberOfDocuments ix) - real (getTokenDocumentCount ix t) + 0.5)
         / (real (getTokenDocumentCount ix t) + 0.5))"

definition spec_bm25_term2 :: "Index \<Rightarrow> string \<Rightarrow> string \<Rightarrow> real" where
  "spec_bm25_term2 ix d t =
     ((1.8 + 1) * real (getTokenFrequencyInDocument ix t d))
       / (spec_bm25_K ix d + real (getTokenFrequencyInDocument ix t d))"

definition spec_bm25_term3 :: real where
  "spec_bm25_term3 = ((5 + 1) * 1) / (5 + 1)"

definition spec_bm25_score :: "Index \<Rightarrow> string list \<Rightarrow> string \<Rightarrow> real" where
  "spec_bm25_score ix qwords d =
     (\<Sum>t\<leftarrow>qwords. spec_bm25_term1 ix t * spec_bm25_term2 ix d t * spec_bm25_term3)"

text \<open>
  The score as the Python number that the accumulation leaves. A product is added when
  its three factors are not zero; the specification holds that leaving the others out
  is the same as adding every product.
\<close>

definition spec_bm25_product :: "Index \<Rightarrow> string \<Rightarrow> string \<Rightarrow> real" where
  "spec_bm25_product ix d t = spec_bm25_term1 ix t * spec_bm25_term2 ix d t * spec_bm25_term3"

definition spec_bm25_nonzero :: "Index \<Rightarrow> string \<Rightarrow> string \<Rightarrow> bool" where
  "spec_bm25_nonzero ix d t \<longleftrightarrow>
     spec_bm25_term1 ix t \<noteq> 0 \<and> spec_bm25_term2 ix d t \<noteq> 0 \<and> spec_bm25_term3 \<noteq> 0"

definition spec_bm25_skipping :: "Index \<Rightarrow> string list \<Rightarrow> string \<Rightarrow> py_num" where
  "spec_bm25_skipping ix qwords d =
     accumulate_from_zero (map (spec_bm25_product ix d) (filter (spec_bm25_nonzero ix d) qwords))"

definition spec_bm25_always_adding :: "Index \<Rightarrow> string list \<Rightarrow> string \<Rightarrow> py_num" where
  "spec_bm25_always_adding ix qwords d =
     accumulate_from_zero (map (spec_bm25_product ix d) qwords)"

subsection \<open>Well-formed indexes\<close>

text \<open>
  What \<^verbatim>\<open>Index.add\<close> keeps true of the two dictionaries, used in the proofs only.
  The number of positions stored in an entry and in the whole index:
\<close>

definition postings_total :: "('d \<times> 'p list) list \<Rightarrow> nat" where
  "postings_total ps = sum_list (map (length \<circ> snd) ps)"

definition index_total :: "('t \<times> ('d \<times> 'p list) list) list \<Rightarrow> nat" where
  "index_total ix = sum_list (map (postings_total \<circ> snd) ix)"

text \<open>
  The entry of a token has each document once, names documents of \<open>D\<close> only, and
  holds no empty position list; in an index every token occurs once and has an entry
  that is not empty.
\<close>

definition posting_ok :: "('d \<times> 'p list) list \<Rightarrow> 'd set \<Rightarrow> bool" where
  "posting_ok ps D \<longleftrightarrow>
     distinct (map fst ps) \<and> fst ` set ps \<subseteq> D \<and> (\<forall>e\<in>set ps. snd e \<noteq> [])"

definition index_wf :: "('t \<times> ('d \<times> 'p list) list) list \<Rightarrow> 'd set \<Rightarrow> bool" where
  "index_wf ix D \<longleftrightarrow>
     distinct (map fst ix) \<and> (\<forall>e\<in>set ix. snd e \<noteq> [] \<and> posting_ok (snd e) D)"

definition index_inv :: "Index \<Rightarrow> bool" where
  "index_inv self \<longleftrightarrow>
     index_wf (index self) (fst ` set (documents self))
     \<and> distinct (map fst (documents self))
     \<and> length (documents self) \<le> docCount self
     \<and> totalTokenCount self = None"

subsection \<open>A small corpus\<close>

text \<open>Small corpora, used to run the definitions on concrete input.\<close>

definition one_document :: "document list" where
  "one_document = [\<lparr>storyID = ''d1'', doc_text = ''cat''\<rparr>]"

definition example_corpus :: "document list" where
  "example_corpus =
     [\<lparr>storyID = ''d1'', doc_text = ''cat dog cat''\<rparr>,
      \<lparr>storyID = ''d2'', doc_text = ''dog dog''\<rparr>]"

section \<open>The boolean models\<close>


lemma results_fold_add:
  "results (fold (\<lambda>d res. QueryResults_add res d s) ds r0) =
     results r0 @ map (\<lambda>d. \<lparr>document = d, score = s\<rparr>) ds"
  by (induction ds arbitrary: r0) (simp_all add: QueryResults_add_def)

lemma method_fold_add:
  "qmethod (fold (\<lambda>d res. QueryResults_add res d s) ds r0) = qmethod r0"
  by (induction ds arbitrary: r0) (simp_all add: QueryResults_add_def)

lemma set_or_documents:
  "set (or_documents ix ws docs) = set docs \<union> (\<Union>w\<in>set ws. set (getDocumentIDsForToken ix w))"
  by (induction ws arbitrary: docs) (simp_all add: Un_assoc)

lemma distinct_or_documents:
  "distinct docs \<Longrightarrow> distinct (or_documents ix ws docs)"
  by (induction ws arbitrary: docs) auto


lemma and_documents_Cons_False:
  "and_documents ix (w # ws) docs False =
     and_documents ix ws (filter (\<lambda>d. d \<in> set (getDocumentIDsForToken ix w)) docs) False"
  by (simp add: Let_def)

lemma and_documents_Cons_True:
  "and_documents ix (w # ws) docs True =
     and_documents ix ws (remdups (getDocumentIDsForToken ix w)) False"
  by (simp add: Let_def)

lemma set_and_documents_rest:
  "set (and_documents ix ws docs False) =
     set docs \<inter> (\<Inter>w\<in>set ws. set (getDocumentIDsForToken ix w))"
proof (induction ws arbitrary: docs)
  case Nil
  show ?case by simp
next
  case (Cons w ws)
  have "set (and_documents ix (w # ws) docs False) =
          set (filter (\<lambda>d. d \<in> set (getDocumentIDsForToken ix w)) docs)
            \<inter> (\<Inter>w\<in>set ws. set (getDocumentIDsForToken ix w))"
    unfolding and_documents_Cons_False by (rule Cons.IH)
  also have "\<dots> = set docs \<inter> (\<Inter>w\<in>set (w # ws). set (getDocumentIDsForToken ix w))"
    by auto
  finally show ?case .
qed

lemma set_and_documents:
  assumes "ws \<noteq> []"
  shows "set (and_documents ix ws docs True) = (\<Inter>w\<in>set ws. set (getDocumentIDsForToken ix w))"
proof -
  from assms obtain w ws' where ws: "ws = w # ws'" by (cases ws) auto
  have "set (and_documents ix (w # ws') docs True) =
          set (remdups (getDocumentIDsForToken ix w))
            \<inter> (\<Inter>w\<in>set ws'. set (getDocumentIDsForToken ix w))"
    unfolding and_documents_Cons_True by (rule set_and_documents_rest)
  also have "\<dots> = (\<Inter>w\<in>set (w # ws'). set (getDocumentIDsForToken ix w))"
    by auto
  finally show ?thesis by (simp only: ws)
qed

lemma distinct_and_documents:
  "distinct docs \<Longrightarrow> distinct (and_documents ix ws docs b)"
proof (induction ws arbitrary: docs b)
  case Nil
  then show ?case by simp
next
  case (Cons w ws)
  show ?case
  proof (cases b)
    case True
    have "distinct (and_documents ix ws (remdups (getDocumentIDsForToken ix w)) False)"
      by (rule Cons.IH) simp
    with True show ?thesis by (simp only: and_documents_Cons_True)
  next
    case False
    have "distinct (and_documents ix ws
            (filter (\<lambda>d. d \<in> set (getDocumentIDsForToken ix w)) docs) False)"
      by (rule Cons.IH) (simp add: Cons.prems)
    with False show ?thesis by (simp only: and_documents_Cons_False)
  qed
qed


lemma results_runANDQuery:
  "results (runANDQuery ix ws) =
     map (\<lambda>d. \<lparr>document = d, score = PyInt 1\<rparr>) (and_documents ix ws [] True)"
  by (simp add: runANDQuery_def results_fold_add QueryResults_init_def)

lemma results_runORQuery:
  "results (runORQuery ix ws) =
     map (\<lambda>d. \<lparr>document = d, score = PyInt 1\<rparr>) (or_documents ix ws [])"
  by (simp add: runORQuery_def results_fold_add QueryResults_init_def)

text \<open>
  C3. For every index and every query with at least one term, \<^verbatim>\<open>runANDQuery\<close>
  returns exactly the documents of the intersection, over the query terms, of the
  documents containing the term, each once and with the score 1 (the int); when a query term is not a
  key of the index, there is no result.
\<close>

theorem runANDQuery_intersection:
  assumes "qwords \<noteq> []"
  shows "set (map document (results (runANDQuery ix qwords))) =
           (\<Inter>w\<in>set qwords. set (getDocumentIDsForToken ix w))
       \<and> distinct (map document (results (runANDQuery ix qwords)))
       \<and> (\<forall>r\<in>set (results (runANDQuery ix qwords)). score r = PyInt 1)
       \<and> qmethod (runANDQuery ix qwords) = ''AND''
       \<and> ((\<exists>w\<in>set qwords. map_of (index ix) w = None) \<longrightarrow> results (runANDQuery ix qwords) = [])"
proof -
  let ?ds = "and_documents ix qwords [] True"
  have docs: "map document (results (runANDQuery ix qwords)) = ?ds"
    by (simp add: results_runANDQuery comp_def)
  have s: "set ?ds = (\<Inter>w\<in>set qwords. set (getDocumentIDsForToken ix w))"
    using assms by (rule set_and_documents)
  have d: "distinct ?ds"
    by (rule distinct_and_documents) simp
  have one: "\<forall>r\<in>set (results (runANDQuery ix qwords)). score r = PyInt 1"
    by (auto simp: results_runANDQuery)
  have m: "qmethod (runANDQuery ix qwords) = ''AND''"
    by (simp add: runANDQuery_def method_fold_add QueryResults_init_def)
  have absent: "results (runANDQuery ix qwords) = []"
    if "\<exists>w\<in>set qwords. map_of (index ix) w = None"
  proof -
    from that obtain w where w: "w \<in> set qwords" "map_of (index ix) w = None" by blast
    then have "getDocumentIDsForToken ix w = []"
      by (simp add: getDocumentIDsForToken_def)
    moreover have "set ?ds \<subseteq> set (getDocumentIDsForToken ix w)"
      unfolding s using w(1) by (rule INT_lower)
    ultimately have "?ds = []" by simp
    then show ?thesis by (simp only: results_runANDQuery list.map)
  qed
  from docs s have A: "set (map document (results (runANDQuery ix qwords))) =
      (\<Inter>w\<in>set qwords. set (getDocumentIDsForToken ix w))"
    by (simp only:)
  from docs d have B: "distinct (map document (results (runANDQuery ix qwords)))"
    by (simp only:)
  from A B one m absent show ?thesis by blast
qed

text \<open>
  C10. On the empty list of query terms each of \<^verbatim>\<open>runANDQuery\<close>,
  \<^verbatim>\<open>runORQuery\<close>, \<^verbatim>\<open>runQLQuery\<close> and \<^verbatim>\<open>runBM25Query\<close> returns a
  collection without entries, for every index; the two ranked models raise nothing and
  leave the index as it is.
\<close>

theorem empty_query_no_entries:
  "runANDQuery ix [] = \<lparr>results = [], qmethod = ''AND''\<rparr>
   \<and> runORQuery ix [] = \<lparr>results = [], qmethod = ''OR''\<rparr>
   \<and> runQLQuery ix [] = Inr (\<lparr>results = [], qmethod = ''QL''\<rparr>, ix)
   \<and> runBM25Query ix [] = Inr (\<lparr>results = [], qmethod = ''BM25''\<rparr>, ix)"
  by (simp add: runANDQuery_def runORQuery_def runQLQuery_def runQLQuery_u_def
      runBM25Query_def runBM25Query_k_def QueryResults_init_def)

lemma example_ids_cat: "getDocumentIDsForToken (buildIndex example_corpus) ''cat'' = [''d1'']"
  by code_simp

lemma example_ids_dog:
  "getDocumentIDsForToken (buildIndex example_corpus) ''dog'' = [''d1'', ''d2'']"
  by code_simp

lemma example_absent_zebra: "map_of (index (buildIndex example_corpus)) ''zebra'' = None"
  by code_simp

theorem runANDQuery_intersection_witness:
  "set (map document (results (runANDQuery (buildIndex example_corpus) [''cat'', ''dog''])))
     = {''d1''}
   \<and> results (runANDQuery (buildIndex example_corpus) [''cat'', ''zebra'']) = []"
proof -
  have ne: "[''cat'', ''dog''] \<noteq> ([] :: string list)" "[''cat'', ''zebra''] \<noteq> ([] :: string list)"
    by simp_all
  have "set (map document (results (runANDQuery (buildIndex example_corpus) [''cat'', ''dog''])))
          = (\<Inter>w\<in>set [''cat'', ''dog'']. set (getDocumentIDsForToken (buildIndex example_corpus) w))"
    using runANDQuery_intersection [OF ne(1), of "buildIndex example_corpus"] by (rule conjunct1)
  also have "\<dots> = {''d1''}"
    by (simp add: example_ids_cat example_ids_dog)
  finally have first: "set (map document
      (results (runANDQuery (buildIndex example_corpus) [''cat'', ''dog'']))) = {''d1''}" .
  have "\<exists>w\<in>set [''cat'', ''zebra'']. map_of (index (buildIndex example_corpus)) w = None"
    by (simp add: example_absent_zebra)
  with runANDQuery_intersection [OF ne(2), of "buildIndex example_corpus"]
  have "results (runANDQuery (buildIndex example_corpus) [''cat'', ''zebra'']) = []"
    by blast
  with first show ?thesis by (rule conjI)
qed

section \<open>Ranking\<close>

lemma rank_rows_document: "map row_document (rank_rows q t k rs) = map document rs"
  by (induction rs arbitrary: k) simp_all

lemma rank_rows_score: "map row_score (rank_rows q t k rs) = map score rs"
  by (induction rs arbitrary: k) simp_all

lemma rank_rows_rank: "map row_rank (rank_rows q t k rs) = [k..<k + length rs]"
  by (induction rs arbitrary: k) (simp_all add: upt_rec)

lemma rank_rows_pairs:
  "map (\<lambda>r. (row_document r, row_score r)) (rank_rows q t k rs) =
     map (\<lambda>r. (document r, score r)) rs"
  by (induction rs arbitrary: k) simp_all

lemma sorted_neg_descending:
  "sorted (map (\<lambda>x. - num_val (f x)) xs)
     \<Longrightarrow> sorted_wrt (\<lambda>a b. num_val b \<le> num_val a) (map f xs)"
  by (induction xs) (simp_all)

text \<open>
  C5. For every collection of scored results, the rows of \<^verbatim>\<open>getFinalResults\<close> are
  the results in ascending order of the document ID when the method is AND or OR, and
  in descending order of the value of the score when the method is QL or BM25; the ranks are
  1, 2, ..., N in that order, and the rows carry exactly the (document, score) pairs of
  the results.
\<close>

theorem getFinalResults_order_and_ranks:
  "((qmethod qr = ''AND'' \<or> qmethod qr = ''OR'') \<longrightarrow>
       sorted (map row_document (fst (getFinalResults qr qname tag))))
   \<and> ((qmethod qr = ''QL'' \<or> qmethod qr = ''BM25'') \<longrightarrow>
       sorted_wrt (\<lambda>a b. num_val b \<le> num_val a) (map row_score (fst (getFinalResults qr qname tag))))
   \<and> map row_rank (fst (getFinalResults qr qname tag)) = [1..<length (results qr) + 1]
   \<and> mset (map (\<lambda>r. (row_document r, row_score r)) (fst (getFinalResults qr qname tag)))
       = mset (map (\<lambda>r. (document r, score r)) (results qr))"
proof -
  let ?byid = "sort_key document (results qr)"
  let ?bysc = "sort_key (\<lambda>x. - num_val (score x)) (results qr)"
  have ql: "qmethod qr = ''QL'' \<or> qmethod qr = ''BM25'' \<Longrightarrow>
      \<not> (qmethod qr = ''AND'' \<or> qmethod qr = ''OR'')"
    by auto
  have a: "sorted (map row_document (fst (getFinalResults qr qname tag)))"
    if "qmethod qr = ''AND'' \<or> qmethod qr = ''OR''"
    using that by (simp add: getFinalResults_def Let_def rank_rows_document)
  have "sorted (map (\<lambda>x. - num_val (score x)) ?bysc)"
    by (rule sorted_sort_key)
  then have desc: "sorted_wrt (\<lambda>a b. num_val b \<le> num_val a) (map score ?bysc)"
    by (rule sorted_neg_descending)
  have b: "sorted_wrt (\<lambda>a b. num_val b \<le> num_val a) (map row_score (fst (getFinalResults qr qname tag)))"
    if "qmethod qr = ''QL'' \<or> qmethod qr = ''BM25''"
    using ql [OF that] desc by (simp add: getFinalResults_def Let_def rank_rows_score)
  have c: "map row_rank (fst (getFinalResults qr qname tag)) = [1..<length (results qr) + 1]"
    by (simp add: getFinalResults_def Let_def rank_rows_rank)
  have "mset ?byid = mset (results qr)" "mset ?bysc = mset (results qr)"
    by simp_all
  then have d: "mset (map (\<lambda>r. (row_document r, row_score r)) (fst (getFinalResults qr qname tag)))
       = mset (map (\<lambda>r. (document r, score r)) (results qr))"
    by (simp add: getFinalResults_def Let_def rank_rows_pairs)
  from a b c d show ?thesis by blast
qed

theorem getFinalResults_order_and_ranks_witness:
  "map row_document (fst (getFinalResults
      \<lparr>results = [\<lparr>document = ''d2'', score = PyInt 1\<rparr>, \<lparr>document = ''d1'', score = PyInt 1\<rparr>],
       qmethod = ''OR''\<rparr> ''q1'' ''cgibbons'')) = [''d1'', ''d2'']
   \<and> sorted [''d1'', ''d2'']
   \<and> map row_score (fst (getFinalResults
      \<lparr>results = [\<lparr>document = ''d1'', score = PyFloat (- 2)\<rparr>, \<lparr>document = ''d2'', score = PyFloat (- 1)\<rparr>],
       qmethod = ''QL''\<rparr> ''q2'' ''cgibbons'')) = [PyFloat (- 1), PyFloat (- 2)]
   \<and> sorted_wrt (\<lambda>a b. num_val b \<le> num_val a) [PyFloat (- 1), PyFloat (- 2)]"
proof -
  let ?or = "\<lparr>results = [\<lparr>document = ''d2'', score = PyInt 1\<rparr>, \<lparr>document = ''d1'', score = PyInt 1\<rparr>],
       qmethod = ''OR''\<rparr>"
  let ?ql = "\<lparr>results = [\<lparr>document = ''d1'', score = PyFloat (- 2)\<rparr>, \<lparr>document = ''d2'', score = PyFloat (- 1)\<rparr>],
       qmethod = ''QL''\<rparr>"
  have lt: "''d1'' < ''d2''"
    by (simp add: less_char_def)
  have e1: "map row_document (fst (getFinalResults ?or ''q1'' ''cgibbons'')) = [''d1'', ''d2'']"
    using lt by (simp add: getFinalResults_def Let_def)
  have e2: "map row_score (fst (getFinalResults ?ql ''q2'' ''cgibbons'')) = [PyFloat (- 1), PyFloat (- 2)]"
    by (simp add: getFinalResults_def Let_def)
  have m1: "qmethod ?or = ''AND'' \<or> qmethod ?or = ''OR''" by simp
  have m2: "qmethod ?ql = ''QL'' \<or> qmethod ?ql = ''BM25''" by simp
  from getFinalResults_order_and_ranks [of ?or "''q1''" "''cgibbons''"] m1
  have "sorted (map row_document (fst (getFinalResults ?or ''q1'' ''cgibbons'')))"
    by blast
  then have s1: "sorted [''d1'', ''d2'']"
    by (simp only: e1)
  from getFinalResults_order_and_ranks [of ?ql "''q2''" "''cgibbons''"] m2
  have "sorted_wrt (\<lambda>a b. num_val b \<le> num_val a) (map row_score (fst (getFinalResults ?ql ''q2'' ''cgibbons'')))"
    by blast
  then have s2: "sorted_wrt (\<lambda>a b. num_val b \<le> num_val a) [PyFloat (- 1), PyFloat (- 2)]"
    by (simp only: e2)
  from e1 s1 e2 s2 show ?thesis by blast
qed

section \<open>Dictionaries as association lists\<close>

lemma sum_update:
  fixes f :: "'v \<Rightarrow> nat"
  shows "sum_list (map (f \<circ> snd) (AList.update k v al))
           + (case map_of al k of None \<Rightarrow> 0 | Some v0 \<Rightarrow> f v0)
         = sum_list (map (f \<circ> snd) al) + f v"
  by (induction al) auto

lemma set_update_subset: "set (AList.update k v al) \<subseteq> insert (k, v) (set al)"
  by (induction al) auto

lemma length_update_le: "length (AList.update k v al) \<le> Suc (length al)"
  by (induction al) auto

lemma keys_walk:
  "distinct (map fst al) \<Longrightarrow>
     map (\<lambda>k. g (map_of al k)) (map fst al) = map (\<lambda>e. g (Some (snd e))) al"
proof (induction al)
  case Nil
  show ?case by simp
next
  case (Cons a al)
  obtain k v where a: "a = (k, v)" by (cases a)
  from Cons.prems a have k: "k \<notin> fst ` set al" and d: "distinct (map fst al)"
    by auto
  have "map (\<lambda>k'. g (map_of ((k, v) # al) k')) (map fst al) = map (\<lambda>k'. g (map_of al k')) (map fst al)"
    using k by (intro map_cong refl) auto
  with Cons.IH [OF d] show ?case
    by (simp add: a)
qed

lemma keys_walk_sum:
  fixes g :: "'v option \<Rightarrow> nat"
  assumes "distinct (map fst al)"
  shows "sum_list (map (\<lambda>k. g (map_of al k)) (map fst al)) = sum_list (map (\<lambda>e. g (Some (snd e))) al)"
  by (simp only: keys_walk [OF assms])

lemma length_le_of_keys:
  assumes "distinct (map fst ps)" "fst ` set ps \<subseteq> fst ` set docs"
  shows "length ps \<le> length docs"
proof -
  have "length ps = card (set (map fst ps))"
    using distinct_card [OF assms(1)] by simp
  also have "\<dots> \<le> card (set (map fst docs))"
    using assms(2) by (intro card_mono) auto
  also have "\<dots> \<le> length docs"
    using card_length [of "map fst docs"] by simp
  finally show ?thesis .
qed

section \<open>Building the index\<close>

lemma postings_total_append:
  "postings_total (AList.update sid ((case map_of ps sid of None \<Rightarrow> [] | Some pos \<Rightarrow> pos) @ [i]) ps)
     = postings_total ps + 1"
proof -
  let ?pos = "case map_of ps sid of None \<Rightarrow> [] | Some pos \<Rightarrow> pos"
  have "(case map_of ps sid of None \<Rightarrow> 0 | Some v0 \<Rightarrow> length v0) = length ?pos"
    by (cases "map_of ps sid") simp_all
  with sum_update [of length sid "?pos @ [i]" ps] show ?thesis
    by (simp add: postings_total_def)
qed

lemma index_total_add_token: "index_total (add_token sid token i ix) = index_total ix + 1"
proof -
  let ?ps = "case map_of ix token of None \<Rightarrow> [] | Some ps \<Rightarrow> ps"
  let ?new = "AList.update sid ((case map_of ?ps sid of None \<Rightarrow> [] | Some pos \<Rightarrow> pos) @ [i]) ?ps"
  have old: "(case map_of ix token of None \<Rightarrow> 0 | Some v0 \<Rightarrow> postings_total v0) = postings_total ?ps"
    by (cases "map_of ix token") (simp_all add: postings_total_def)
  have "index_total (AList.update token ?new ix) + postings_total ?ps
          = index_total ix + postings_total ?new"
    using sum_update [of postings_total token ?new ix] old by (simp add: index_total_def)
  then have "index_total (AList.update token ?new ix) = index_total ix + 1"
    by (simp add: postings_total_append)
  then show ?thesis
    by (simp add: add_token_def Let_def)
qed

lemma index_total_add_tokens:
  "index_total (add_tokens sid ts i ix) = index_total ix + length ts"
  by (induction ts arbitrary: i ix) (simp_all add: index_total_add_token)

lemma posting_ok_Nil: "posting_ok [] D"
  by (simp add: posting_ok_def)

lemma posting_ok_mono: "posting_ok ps D \<Longrightarrow> D \<subseteq> D' \<Longrightarrow> posting_ok ps D'"
  unfolding posting_ok_def by blast

lemma posting_ok_update:
  assumes "posting_ok ps D" "sid \<in> D"
  shows "posting_ok (AList.update sid (pos @ [i]) ps) D"
proof -
  have "distinct (map fst (AList.update sid (pos @ [i]) ps))"
    using assms(1) by (simp add: posting_ok_def distinct_update)
  moreover have "fst ` set (AList.update sid (pos @ [i]) ps) \<subseteq> D"
    using assms by (simp add: posting_ok_def dom_update)
  moreover have "\<forall>e\<in>set (AList.update sid (pos @ [i]) ps). snd e \<noteq> []"
  proof
    fix e assume "e \<in> set (AList.update sid (pos @ [i]) ps)"
    with set_update_subset [of sid "pos @ [i]" ps]
    have "e = (sid, pos @ [i]) \<or> e \<in> set ps" by blast
    with assms(1) show "snd e \<noteq> []"
      unfolding posting_ok_def by auto
  qed
  ultimately show ?thesis
    unfolding posting_ok_def by blast
qed

lemma index_wf_mono: "index_wf ix D \<Longrightarrow> D \<subseteq> D' \<Longrightarrow> index_wf ix D'"
  unfolding index_wf_def using posting_ok_mono by blast

lemma index_wf_entry:
  "index_wf ix D \<Longrightarrow> map_of ix t = Some ps \<Longrightarrow> ps \<noteq> [] \<and> posting_ok ps D"
  unfolding index_wf_def using map_of_SomeD by fastforce

lemma index_wf_add_token:
  assumes "index_wf ix D" "sid \<in> D"
  shows "index_wf (add_token sid token i ix) D"
proof -
  let ?ps = "case map_of ix token of None \<Rightarrow> [] | Some ps \<Rightarrow> ps"
  let ?new = "AList.update sid ((case map_of ?ps sid of None \<Rightarrow> [] | Some pos \<Rightarrow> pos) @ [i]) ?ps"
  have "posting_ok ?ps D"
    using index_wf_entry [OF assms(1)] by (cases "map_of ix token") (simp_all add: posting_ok_Nil)
  then have new: "?new \<noteq> [] \<and> posting_ok ?new D"
    using assms(2) by (simp add: posting_ok_update)
  have "distinct (map fst (AList.update token ?new ix))"
    using assms(1) by (simp add: index_wf_def distinct_update)
  moreover have "\<forall>e\<in>set (AList.update token ?new ix). snd e \<noteq> [] \<and> posting_ok (snd e) D"
  proof
    fix e assume "e \<in> set (AList.update token ?new ix)"
    with set_update_subset [of token ?new ix]
    have "e = (token, ?new) \<or> e \<in> set ix" by blast
    then show "snd e \<noteq> [] \<and> posting_ok (snd e) D"
    proof
      assume "e = (token, ?new)"
      with new show ?thesis by simp
    next
      assume "e \<in> set ix"
      with assms(1) show ?thesis unfolding index_wf_def by blast
    qed
  qed
  ultimately show ?thesis
    by (simp add: index_wf_def add_token_def Let_def)
qed

lemma index_wf_add_tokens:
  "index_wf ix D \<Longrightarrow> sid \<in> D \<Longrightarrow> index_wf (add_tokens sid ts i ix) D"
  by (induction ts arbitrary: i ix) (simp_all add: index_wf_add_token)

lemma index_inv_init: "index_inv Index_init"
  by (simp add: index_inv_def Index_init_def index_wf_def)

lemma index_inv_add:
  assumes "index_inv self"
  shows "index_inv (Index_add self doc)"
proof -
  let ?docs = "AList.update (storyID doc) doc (documents self)"
  have D: "fst ` set ?docs = insert (storyID doc) (fst ` set (documents self))"
    by (simp add: dom_update)
  from assms have "index_wf (index self) (fst ` set ?docs)"
    unfolding index_inv_def D by (blast intro: index_wf_mono)
  then have "index_wf (add_tokens (storyID doc) (str_split (doc_text doc)) 0 (index self))
      (fst ` set ?docs)"
    by (rule index_wf_add_tokens) (simp add: D)
  moreover have "distinct (map fst ?docs)"
    using assms by (simp add: index_inv_def distinct_update)
  moreover have "length ?docs \<le> docCount self + 1"
    using assms length_update_le [of "storyID doc" doc "documents self"]
    by (simp add: index_inv_def)
  moreover have "totalTokenCount self = None"
    using assms by (simp add: index_inv_def)
  ultimately show ?thesis
    by (simp add: index_inv_def Index_add_def)
qed

lemma index_inv_fold:
  "index_inv self \<Longrightarrow> index_inv (fold (\<lambda>doc ix. Index_add ix doc) corpus self)"
  by (induction corpus arbitrary: self) (simp_all add: index_inv_add)

lemma index_inv_buildIndex: "index_inv (buildIndex corpus)"
  unfolding buildIndex_def by (rule index_inv_fold) (rule index_inv_init)

section \<open>The token count of a built index\<close>

lemma getTotalTokenFrequency_entry:
  assumes "index_wf (index self) D"
  shows "getTotalTokenFrequency self t =
           (case map_of (index self) t of Some ps \<Rightarrow> postings_total ps | None \<Rightarrow> 0)"
proof (cases "map_of (index self) t")
  case None
  then show ?thesis by (simp add: getTotalTokenFrequency_def)
next
  case (Some ps)
  from index_wf_entry [OF assms Some] have d: "distinct (map fst ps)"
    by (simp add: posting_ok_def)
  have "getTotalTokenFrequency self t =
          sum_list (map (\<lambda>d. case map_of ps d of Some pos \<Rightarrow> length pos | None \<Rightarrow> 0) (map fst ps))"
    by (simp only: getTotalTokenFrequency_def Some option.case)
  also have "\<dots> = sum_list (map (\<lambda>e. case Some (snd e) of Some pos \<Rightarrow> length pos | None \<Rightarrow> 0) ps)"
    by (rule keys_walk_sum [OF d])
  also have "\<dots> = postings_total ps"
    by (simp add: postings_total_def comp_def)
  finally show ?thesis
    by (simp only: Some option.case)
qed

lemma sum_getTotalTokenFrequency:
  assumes "index_wf (index self) D"
  shows "sum_list (map (getTotalTokenFrequency self) (map fst (index self)))
           = index_total (index self)"
proof -
  from assms have d: "distinct (map fst (index self))"
    by (simp add: index_wf_def)
  have "sum_list (map (getTotalTokenFrequency self) (map fst (index self)))
          = sum_list (map (\<lambda>t. case map_of (index self) t of Some ps \<Rightarrow> postings_total ps | None \<Rightarrow> 0)
              (map fst (index self)))"
  proof -
    have "getTotalTokenFrequency self =
        (\<lambda>t. case map_of (index self) t of Some ps \<Rightarrow> postings_total ps | None \<Rightarrow> 0)"
      by (rule ext) (rule getTotalTokenFrequency_entry [OF assms])
    then show ?thesis by (simp only:)
  qed
  also have "\<dots> = sum_list (map (\<lambda>e. case Some (snd e) of Some ps \<Rightarrow> postings_total ps | None \<Rightarrow> 0)
      (index self))"
    by (rule keys_walk_sum [OF d])
  also have "\<dots> = index_total (index self)"
    by (simp add: index_total_def comp_def)
  finally show ?thesis .
qed

lemma getTotalTokenCount_fresh:
  assumes "index_inv self"
  shows "fst (getTotalTokenCount self) = index_total (index self)"
proof -
  from assms have "totalTokenCount self = None"
    and "index_wf (index self) (fst ` set (documents self))"
    by (simp_all add: index_inv_def)
  with sum_getTotalTokenFrequency [of self "fst ` set (documents self)"] show ?thesis
    by (simp add: getTotalTokenCount_def Let_def)
qed

lemma index_total_init: "index_total (index Index_init) = 0"
  by (simp add: Index_init_def index_total_def)

lemma index_total_fold:
  "index_total (index (fold (\<lambda>doc ix. Index_add ix doc) corpus self))
     = index_total (index self) + (\<Sum>d\<leftarrow>corpus. length (str_split (doc_text d)))"
  by (induction corpus arbitrary: self)
     (simp_all add: Index_add_def index_total_add_tokens)

lemma documents_fold_other:
  "k \<notin> storyID ` set corpus \<Longrightarrow>
     map_of (documents (fold (\<lambda>doc ix. Index_add ix doc) corpus self)) k
       = map_of (documents self) k"
  by (induction corpus arbitrary: self) (simp_all add: Index_add_def update_conv')

lemma documents_fold_member:
  "distinct (map storyID corpus) \<Longrightarrow> d \<in> set corpus \<Longrightarrow>
     map_of (documents (fold (\<lambda>doc ix. Index_add ix doc) corpus self)) (storyID d) = Some d"
proof (induction corpus arbitrary: self)
  case Nil
  then show ?case by simp
next
  case (Cons x xs)
  show ?case
  proof (cases "d = x")
    case True
    from Cons.prems(1) have "storyID x \<notin> storyID ` set xs" by simp
    from documents_fold_other [OF this, of "Index_add self x"] True show ?thesis
      by (simp add: Index_add_def update_conv')
  next
    case False
    with Cons.prems have "distinct (map storyID xs)" "d \<in> set xs" by simp_all
    from Cons.IH [OF this, of "Index_add self x"] show ?thesis by simp
  qed
qed

lemma getDocumentLength_built:
  "distinct (map storyID corpus) \<Longrightarrow> d \<in> set corpus \<Longrightarrow>
     getDocumentLength (buildIndex corpus) (storyID d) = length (str_split (doc_text d))"
  by (simp add: getDocumentLength_def buildIndex_def documents_fold_member)

text \<open>
  C9. For every index built by \<^verbatim>\<open>add\<close> calls on documents that have pairwise
  distinct IDs, \<^verbatim>\<open>getTotalTokenCount()\<close> is the sum of \<^verbatim>\<open>getDocumentLength(d)\<close>
  over the added documents.
\<close>

theorem total_token_count_is_sum_of_lengths:
  assumes "distinct (map storyID corpus)"
  shows "fst (getTotalTokenCount (buildIndex corpus))
           = (\<Sum>d\<leftarrow>corpus. getDocumentLength (buildIndex corpus) (storyID d))"
proof -
  have "fst (getTotalTokenCount (buildIndex corpus)) = index_total (index (buildIndex corpus))"
    by (rule getTotalTokenCount_fresh) (rule index_inv_buildIndex)
  also have "\<dots> = (\<Sum>d\<leftarrow>corpus. length (str_split (doc_text d)))"
    by (simp add: buildIndex_def index_total_fold index_total_init)
  also have "\<dots> = (\<Sum>d\<leftarrow>corpus. getDocumentLength (buildIndex corpus) (storyID d))"
    using assms by (intro arg_cong [where f = sum_list] map_cong refl)
      (simp add: getDocumentLength_built)
  finally show ?thesis .
qed

lemma example_lengths:
  "(\<Sum>d\<leftarrow>example_corpus. getDocumentLength (buildIndex example_corpus) (storyID d)) = 5"
  by code_simp

theorem total_token_count_is_sum_of_lengths_witness:
  "distinct (map storyID example_corpus)
   \<and> fst (getTotalTokenCount (buildIndex example_corpus)) = 5"
proof -
  have d: "distinct (map storyID example_corpus)"
    by (simp add: example_corpus_def)
  from total_token_count_is_sum_of_lengths [OF d]
  have "fst (getTotalTokenCount (buildIndex example_corpus)) = 5"
    by (simp only: example_lengths)
  with d show ?thesis by (rule conjI)
qed

section \<open>The index without documents\<close>

lemma docCount_fold:
  "docCount (fold (\<lambda>doc ix. Index_add ix doc) corpus self) = docCount self + length corpus"
  by (induction corpus arbitrary: self) (simp_all add: Index_add_def)

lemma docCount_buildIndex: "docCount (buildIndex corpus) = length corpus"
  by (simp add: buildIndex_def docCount_fold Index_init_def)

lemma or_documents_no_postings:
  "\<forall>w. getDocumentIDsForToken ix w = [] \<Longrightarrow> or_documents ix ws [] = []"
  by (induction ws) simp_all

lemma no_candidates_ql: "or_documents ix ws [] = [] \<Longrightarrow>
    runQLQuery ix ws = Inr (\<lparr>results = [], qmethod = ''QL''\<rparr>, ix)"
  by (simp add: runQLQuery_def runQLQuery_u_def QueryResults_init_def)

lemma no_candidates_bm25: "or_documents ix ws [] = [] \<Longrightarrow>
    runBM25Query ix ws = Inr (\<lparr>results = [], qmethod = ''BM25''\<rparr>, ix)"
  by (simp add: runBM25Query_def runBM25Query_k_def QueryResults_init_def)

text \<open>
  On the index built from no document, the query \<^verbatim>\<open>['cat']\<close> makes neither ranked
  model raise \<^verbatim>\<open>ZeroDivisionError\<close>.
\<close>

theorem empty_index_no_division_counterexample:
  "getNumberOfDocuments (buildIndex []) = 0
   \<and> runQLQuery (buildIndex []) [''cat''] \<noteq> Inl ZeroDivisionError
   \<and> runBM25Query (buildIndex []) [''cat''] \<noteq> Inl ZeroDivisionError"
proof -
  have "or_documents (buildIndex []) [''cat''] [] = []"
    by (simp add: buildIndex_def Index_init_def getDocumentIDsForToken_def)
  then show ?thesis
    by (simp add: no_candidates_ql no_candidates_bm25 getNumberOfDocuments_def
        docCount_buildIndex)
qed

text \<open>
  C6, as the program behaves. On an index built from no document, \<^verbatim>\<open>runQLQuery\<close>
  and \<^verbatim>\<open>runBM25Query\<close> raise nothing: for every query they return a collection
  without entries and leave the index as it is, since no document is a candidate and
  the divisions are inside the loop over the candidates. The division by zero is in
  \<^verbatim>\<open>getAverageDocumentLength\<close>, which raises when it is called on such an index.
\<close>

theorem empty_index_returns_no_entries:
  assumes "getNumberOfDocuments (buildIndex corpus) = 0"
  shows "runQLQuery (buildIndex corpus) qwords
           = Inr (\<lparr>results = [], qmethod = ''QL''\<rparr>, buildIndex corpus)
       \<and> runBM25Query (buildIndex corpus) qwords
           = Inr (\<lparr>results = [], qmethod = ''BM25''\<rparr>, buildIndex corpus)
       \<and> fst (getAverageDocumentLength (buildIndex corpus)) = Inl ZeroDivisionError"
proof -
  from assms have c: "corpus = []"
    by (simp add: getNumberOfDocuments_def docCount_buildIndex)
  have "\<forall>w. getDocumentIDsForToken (buildIndex []) w = []"
    by (simp add: buildIndex_def Index_init_def getDocumentIDsForToken_def)
  then have none: "or_documents (buildIndex []) qwords [] = []"
    by (rule or_documents_no_postings)
  have avg: "fst (getAverageDocumentLength (buildIndex [])) = Inl ZeroDivisionError"
    by (simp add: getAverageDocumentLength_def getTotalTokenCount_def getNumberOfDocuments_def
        buildIndex_def Index_init_def Let_def)
  from none avg show ?thesis
    unfolding c by (simp add: no_candidates_ql no_candidates_bm25)
qed

theorem empty_index_returns_no_entries_witness:
  "getNumberOfDocuments (buildIndex []) = 0
   \<and> runQLQuery (buildIndex []) [''cat'']
        = Inr (\<lparr>results = [], qmethod = ''QL''\<rparr>, buildIndex [])
   \<and> runBM25Query (buildIndex []) [''cat'']
        = Inr (\<lparr>results = [], qmethod = ''BM25''\<rparr>, buildIndex [])
   \<and> fst (getAverageDocumentLength (buildIndex [])) = Inl ZeroDivisionError"
proof -
  have n: "getNumberOfDocuments (buildIndex []) = 0"
    by (simp add: getNumberOfDocuments_def docCount_buildIndex)
  from n empty_index_returns_no_entries [OF n, of "[''cat'']"] show ?thesis
    by (rule conjI)
qed

section \<open>The query driver\<close>

lemma example_or_cat:
  "runORQuery (buildIndex example_corpus) [''cat'']
     = \<lparr>results = [\<lparr>document = ''d1'', score = PyInt 1\<rparr>], qmethod = ''OR''\<rparr>"
  by (simp add: runORQuery_def QueryResults_init_def QueryResults_add_def example_ids_cat)

lemma upper_examples: "upper ''FOO'' = ''FOO''" "upper ''OR'' = ''OR''"
  by (simp_all add: upper_def upper_char_def)

text \<open>
  C7 at a concrete input. The first query has the tag \<^verbatim>\<open>FOO\<close>, the second is an OR
  query named \<^verbatim>\<open>q2\<close>. The dispatch appends nothing for the first, so the only entry
  of \<^verbatim>\<open>results\<close> belongs to \<^verbatim>\<open>q2\<close>; the output loop pairs it with the name of the
  first query, writes the row under \<^verbatim>\<open>q1\<close>, and raises \<^verbatim>\<open>IndexError\<close> at
  \<^verbatim>\<open>results[1]\<close>.
\<close>

theorem runQueries_unrecognized_tag_raises:
  "runQueries (buildIndex example_corpus)
     [\<lparr>qtype = ''FOO'', queryName = ''q1'', queryWords = [''cat'']\<rparr>,
      \<lparr>qtype = ''OR'', queryName = ''q2'', queryWords = [''cat'']\<rparr>]
   = ([\<lparr>row_queryName = ''q1'', row_document = ''d1'', row_rank = 1, row_score = PyInt 1,
        row_tag = ''cgibbonsOR''\<rparr>], Some IndexError)"
  by (simp add: runQueries_def upper_examples example_or_cat getFinalResults_def Let_def upt_rec)

section \<open>The cache of the token count\<close>

lemma same_index_refl: "same_index a a"
  by (simp add: same_index_def)

lemma same_index_trans: "same_index a b \<Longrightarrow> same_index b c \<Longrightarrow> same_index a c"
  by (simp add: same_index_def)

lemma same_index_getTotalTokenCount: "same_index (snd (getTotalTokenCount ix)) ix"
proof (cases "totalTokenCount ix")
  case None
  then show ?thesis
    by (simp add: same_index_def getTotalTokenCount_def Let_def)
next
  case (Some n)
  then show ?thesis
    by (simp add: same_index_def getTotalTokenCount_def)
qed

lemma same_index_accessors:
  assumes "same_index a b"
  shows "getTotalTokenFrequency a = getTotalTokenFrequency b"
    and "getTokenFrequencyInDocument a = getTokenFrequencyInDocument b"
    and "getTokenDocumentCount a = getTokenDocumentCount b"
    and "getDocumentIDsForToken a = getDocumentIDsForToken b"
    and "getDocumentLength a = getDocumentLength b"
    and "getNumberOfDocuments a = getNumberOfDocuments b"
    and "fst (getTotalTokenCount a) = fst (getTotalTokenCount b)"
  using assms
  by (simp_all add: same_index_def fun_eq_iff getTotalTokenFrequency_def
      getTokenFrequencyInDocument_def getTokenDocumentCount_def getDocumentIDsForToken_def
      getDocumentLength_def getNumberOfDocuments_def)

lemma same_index_spec_ql_term:
  "same_index a b \<Longrightarrow> spec_ql_term a d t = spec_ql_term b d t"
  by (simp add: spec_ql_term_def same_index_accessors)

lemma getTotalTokenCount_again:
  "getTotalTokenCount (snd (getTotalTokenCount ix))
     = (fst (getTotalTokenCount ix), snd (getTotalTokenCount ix))"
proof (cases "totalTokenCount ix")
  case None
  then show ?thesis
    by (simp add: getTotalTokenCount_def Let_def)
next
  case (Some n)
  then show ?thesis
    by (simp add: getTotalTokenCount_def)
qed

lemma filled_again:
  "snd (getTotalTokenCount (snd (getTotalTokenCount ix))) = snd (getTotalTokenCount ix)"
  by (simp add: getTotalTokenCount_again)

lemma same_index_or_documents:
  assumes "same_index a b"
  shows "or_documents a ws docs = or_documents b ws docs"
  by (induction ws arbitrary: docs) (simp_all add: same_index_accessors(4) [OF assms])

lemma same_index_sym: "same_index a b \<Longrightarrow> same_index b a"
  by (simp add: same_index_def)

section \<open>Accumulating a score\<close>

lemma fold_iadd_float:
  "fold (\<lambda>x sc. iadd_float sc x) xs sc
     = (if xs = [] then sc else PyFloat (num_val sc + sum_list xs))"
  by (induction xs arbitrary: sc) (simp_all add: iadd_float_def add.assoc)

lemma accumulate_from_zero_value:
  "accumulate_from_zero xs = (if xs = [] then PyInt 0 else PyFloat (sum_list xs))"
  by (simp add: accumulate_from_zero_def fold_iadd_float)

lemma num_val_accumulate: "num_val (accumulate_from_zero xs) = sum_list xs"
  by (simp add: accumulate_from_zero_value)

section \<open>Query likelihood\<close>

lemma ql_words_step:
  assumes "0 < fst (getTotalTokenCount ix)" "0 < getTotalTokenFrequency ix w"
  shows "ql_words ix d 300 (w # ws) sc =
           ql_words (snd (getTotalTokenCount ix)) d 300 ws (iadd_float sc (spec_ql_term ix d w))"
proof -
  let ?T = "fst (getTotalTokenCount ix)"
  let ?ix1 = "snd (getTotalTokenCount ix)"
  let ?p = "real (getTotalTokenFrequency ix w) / real ?T"
  let ?num = "real (getTokenFrequencyInDocument ix w d) + 300 * ?p"
  let ?den = "real (getDocumentLength ix d) + 300"
  have len: "getDocumentLength ?ix1 d = getDocumentLength ix d"
    by (simp add: same_index_accessors(5) [OF same_index_getTotalTokenCount])
  from assms have p: "0 < ?p" by simp
  then have "0 < 300 * ?p" by simp
  then have num: "0 < ?num"
    by (rule add_nonneg_pos [OF of_nat_0_le_iff])
  have den: "0 < ?den"
    by (rule add_nonneg_pos [OF of_nat_0_le_iff]) simp
  from num den have q: "0 < ?num / ?den" by (rule divide_pos_pos)
  have d1: "py_div (real (getTotalTokenFrequency ix w)) (real ?T) = Inr ?p"
    using assms(1) by (simp add: py_div_def)
  have d2: "py_div ?num ?den = Inr (?num / ?den)"
    using den by (simp add: py_div_def)
  have lg: "py_log (?num / ?den) = Inr (spec_ql_term ix d w)"
    using q by (simp add: py_log_def spec_ql_term_def)
  show ?thesis
    by (simp only: ql_words.simps split_beta Let_def d1 len d2 lg sum.case)
qed

lemma ql_words_sum:
  assumes "0 < fst (getTotalTokenCount ix)" "\<forall>w\<in>set ws. 0 < getTotalTokenFrequency ix w"
  shows "ql_words ix d 300 ws sc
           = Inr (fold (\<lambda>x sc. iadd_float sc x) (map (spec_ql_term ix d) ws) sc,
                  if ws = [] then ix else snd (getTotalTokenCount ix))"
  using assms
proof (induction ws arbitrary: ix sc)
  case Nil
  show ?case by simp
next
  case (Cons w ws)
  let ?ix1 = "snd (getTotalTokenCount ix)"
  have s1: "same_index ?ix1 ix" by (rule same_index_getTotalTokenCount)
  from Cons.prems have w: "0 < getTotalTokenFrequency ix w"
    and rest: "\<forall>w\<in>set ws. 0 < getTotalTokenFrequency ix w"
    by simp_all
  have T1: "0 < fst (getTotalTokenCount ?ix1)"
    using Cons.prems(1) by (simp only: same_index_accessors(7) [OF s1])
  have rest1: "\<forall>w\<in>set ws. 0 < getTotalTokenFrequency ?ix1 w"
    using rest by (simp only: same_index_accessors(1) [OF s1])
  have terms: "spec_ql_term ?ix1 d = spec_ql_term ix d"
    by (rule ext) (rule same_index_spec_ql_term [OF s1])
  have state: "(if ws = [] then ?ix1 else snd (getTotalTokenCount ?ix1)) = ?ix1"
    by (simp add: filled_again)
  have "ql_words ix d 300 (w # ws) sc
          = ql_words ?ix1 d 300 ws (iadd_float sc (spec_ql_term ix d w))"
    using Cons.prems(1) w by (rule ql_words_step)
  also have "\<dots> = Inr (fold (\<lambda>x sc. iadd_float sc x) (map (spec_ql_term ix d) ws)
                          (iadd_float sc (spec_ql_term ix d w)), ?ix1)"
    by (simp only: Cons.IH [OF T1 rest1] terms state)
  finally show ?case by simp
qed

lemma ql_words_score:
  assumes "0 < fst (getTotalTokenCount ix)" "\<forall>w\<in>set ws. 0 < getTotalTokenFrequency ix w"
    and "ws \<noteq> []"
  shows "ql_words ix d 300 ws (PyInt 0)
           = Inr (PyFloat (spec_ql_score ix ws d), snd (getTotalTokenCount ix))"
  using assms(3)
  by (simp add: ql_words_sum [OF assms(1,2)] fold_iadd_float spec_ql_score_def)

lemma ql_documents_scores:
  assumes "0 < fst (getTotalTokenCount ix)" "\<forall>w\<in>set ws. 0 < getTotalTokenFrequency ix w"
    and "ws \<noteq> []"
  shows "ql_documents ix ws 300 ds res
           = Inr (res\<lparr>results := results res
                    @ map (\<lambda>d. \<lparr>document = d, score = PyFloat (spec_ql_score ix ws d)\<rparr>) ds\<rparr>,
                  if ds = [] then ix else snd (getTotalTokenCount ix))"
  using assms(1,2)
proof (induction ds arbitrary: ix res)
  case Nil
  show ?case by simp
next
  case (Cons d ds)
  let ?ix1 = "snd (getTotalTokenCount ix)"
  let ?res1 = "QueryResults_add res d (PyFloat (spec_ql_score ix ws d))"
  have s1: "same_index ?ix1 ix" by (rule same_index_getTotalTokenCount)
  have T1: "0 < fst (getTotalTokenCount ?ix1)"
    using Cons.prems(1) by (simp only: same_index_accessors(7) [OF s1])
  have rest1: "\<forall>w\<in>set ws. 0 < getTotalTokenFrequency ?ix1 w"
    using Cons.prems(2) by (simp only: same_index_accessors(1) [OF s1])
  have sc: "spec_ql_score ?ix1 ws = spec_ql_score ix ws"
    by (rule ext) (simp only: spec_ql_score_def same_index_spec_ql_term [OF s1])
  have state: "(if ds = [] then ?ix1 else snd (getTotalTokenCount ?ix1)) = ?ix1"
    by (simp add: filled_again)
  have "ql_documents ix ws 300 (d # ds) res = ql_documents ?ix1 ws 300 ds ?res1"
    by (simp only: ql_documents.simps ql_words_score [OF Cons.prems assms(3)] sum.case prod.case)
  also have "\<dots> = Inr (?res1\<lparr>results := results ?res1
                   @ map (\<lambda>d. \<lparr>document = d, score = PyFloat (spec_ql_score ix ws d)\<rparr>) ds\<rparr>,
                 ?ix1)"
    by (simp only: Cons.IH [OF T1 rest1] sc state)
  finally show ?case
    by (simp add: QueryResults_add_def)
qed

lemma or_documents_empty_query: "or_documents ix [] [] = []"
  by simp

lemma runQLQuery_scores:
  assumes "or_documents ix ws [] \<noteq> [] \<Longrightarrow>
      0 < fst (getTotalTokenCount ix) \<and> (\<forall>w\<in>set ws. 0 < getTotalTokenFrequency ix w)"
  shows "runQLQuery ix ws
           = Inr (\<lparr>results = map (\<lambda>d. \<lparr>document = d, score = PyFloat (spec_ql_score ix ws d)\<rparr>)
                               (or_documents ix ws []),
                   qmethod = ''QL''\<rparr>,
                  if or_documents ix ws [] = [] then ix else snd (getTotalTokenCount ix))"
proof (cases "or_documents ix ws [] = []")
  case True
  then show ?thesis
    by (simp add: runQLQuery_def runQLQuery_u_def QueryResults_init_def)
next
  case False
  then have ne: "ws \<noteq> []" by (cases ws) simp_all
  from assms [OF False] have T: "0 < fst (getTotalTokenCount ix)"
    and p: "\<forall>w\<in>set ws. 0 < getTotalTokenFrequency ix w"
    by simp_all
  show ?thesis
    unfolding runQLQuery_def runQLQuery_u_def ql_documents_scores [OF T p ne]
    by (simp add: QueryResults_init_def)
qed

lemma one_document_total: "fst (getTotalTokenCount (buildIndex one_document)) = 1"
  by code_simp

lemma one_document_candidates: "or_documents (buildIndex one_document) [''cat'', ''zebra''] [] = [''d1'']"
  by code_simp

lemma one_document_zebra:
  "getTotalTokenFrequency (buildIndex one_document) ''zebra'' = 0"
  "getTokenFrequencyInDocument (buildIndex one_document) ''zebra'' ''d1'' = 0"
  by code_simp+

lemma one_document_cat:
  "getTotalTokenFrequency (buildIndex one_document) ''cat'' = 1"
  by code_simp

text \<open>
  C1 at a concrete input. One document with the text \<^verbatim>\<open>cat\<close> and the query
  \<^verbatim>\<open>['cat', 'zebra']\<close>: the token count is 1, the query is not empty and the document
  is a candidate. For \<^verbatim>\<open>zebra\<close> the numerator is \<open>0 + 300 * (0 / 1) = 0\<close>, on which
  \<^verbatim>\<open>math.log\<close> raises \<^verbatim>\<open>ValueError\<close>: the candidate gets no score.
\<close>

theorem runQLQuery_absent_term_raises:
  "0 < fst (getTotalTokenCount (buildIndex one_document))
   \<and> [''cat'', ''zebra''] \<noteq> ([] :: string list)
   \<and> ''d1'' \<in> set (getDocumentIDsForToken (buildIndex one_document) ''cat'')
   \<and> runQLQuery (buildIndex one_document) [''cat'', ''zebra''] = Inl ValueError"
proof -
  let ?ix = "buildIndex one_document"
  let ?ix1 = "snd (getTotalTokenCount ?ix)"
  have s1: "same_index ?ix1 ?ix" by (rule same_index_getTotalTokenCount)
  have "fst (getTotalTokenCount ?ix1) = 1"
    using one_document_total by (simp only: same_index_accessors(7) [OF s1])
  then obtain ix2 where t1: "getTotalTokenCount ?ix1 = (1, ix2)"
    by (cases "getTotalTokenCount ?ix1") simp
  have cat: "ql_words ?ix ''d1'' 300 [''cat'', ''zebra''] (PyInt 0)
      = ql_words ?ix1 ''d1'' 300 [''zebra''] (iadd_float (PyInt 0) (spec_ql_term ?ix ''d1'' ''cat''))"
    by (rule ql_words_step) (simp_all add: one_document_total one_document_cat)
  have zebra: "ql_words ?ix1 ''d1'' 300 [''zebra''] sc = Inl ValueError" for sc
    by (simp add: t1 same_index_accessors(1,2) [OF s1] one_document_zebra py_div_def py_log_def)
  have "runQLQuery ?ix [''cat'', ''zebra''] = Inl ValueError"
    by (simp only: runQLQuery_def runQLQuery_u_def one_document_candidates ql_documents.simps
        cat zebra sum.case)
  moreover have "''d1'' \<in> set (getDocumentIDsForToken ?ix ''cat'')"
    by code_simp
  moreover have "0 < fst (getTotalTokenCount ?ix)"
    by (simp add: one_document_total)
  moreover have "[''cat'', ''zebra''] \<noteq> ([] :: string list)"
    by simp
  ultimately show ?thesis
    by (intro conjI)
qed

text \<open>
  Where the formula does hold. When there is no candidate, or
  \<^verbatim>\<open>getTotalTokenCount()\<close> is positive and every query term occurs in the index (its
  collection frequency is positive), \<^verbatim>\<open>runQLQuery\<close> raises nothing. It gives each
  candidate document once, with the float that is the sum, over the query terms in
  order and once per occurrence, of the natural logarithm of
  \<open>(termFrequency + 300 * (collectionTermFrequency / totalTokenCount)) / (documentLength + 300)\<close>,
  and it fills the cache of the index when there is a candidate.
\<close>

theorem runQLQuery_score_formula:
  assumes "or_documents ix qwords [] \<noteq> [] \<Longrightarrow>
      0 < fst (getTotalTokenCount ix) \<and> (\<forall>w\<in>set qwords. 0 < getTotalTokenFrequency ix w)"
  shows "runQLQuery ix qwords
           = Inr (\<lparr>results = map (\<lambda>d. \<lparr>document = d,
                                        score = PyFloat (spec_ql_score ix qwords d)\<rparr>)
                               (or_documents ix qwords []),
                   qmethod = ''QL''\<rparr>,
                  if or_documents ix qwords [] = [] then ix else snd (getTotalTokenCount ix))
       \<and> same_index (snd (getTotalTokenCount ix)) ix
       \<and> distinct (or_documents ix qwords [])
       \<and> set (or_documents ix qwords [])
            = (\<Union>w\<in>set qwords. set (getDocumentIDsForToken ix w))"
proof -
  have d: "distinct (or_documents ix qwords [])"
    by (rule distinct_or_documents) simp
  have u: "set (or_documents ix qwords []) = (\<Union>w\<in>set qwords. set (getDocumentIDsForToken ix w))"
    by (simp add: set_or_documents)
  show ?thesis
    by (intro conjI) (rule runQLQuery_scores [OF assms], assumption,
        rule same_index_getTotalTokenCount, rule d, rule u)
qed

lemma example_total: "fst (getTotalTokenCount (buildIndex example_corpus)) = 5"
  by code_simp

lemma example_dog:
  "getTotalTokenFrequency (buildIndex example_corpus) ''dog'' = 3"
  "getTokenFrequencyInDocument (buildIndex example_corpus) ''dog'' ''d1'' = 1"
  "getTokenFrequencyInDocument (buildIndex example_corpus) ''dog'' ''d2'' = 2"
  "getDocumentLength (buildIndex example_corpus) ''d1'' = 3"
  "getDocumentLength (buildIndex example_corpus) ''d2'' = 2"
  by code_simp+

lemma example_candidates_dog:
  "or_documents (buildIndex example_corpus) [''dog''] [] = [''d1'', ''d2'']"
  by code_simp

text \<open>
  The query \<^verbatim>\<open>['dog']\<close> on the corpus of two documents, by the formula:
  \<open>ln ((1 + 300 * (3 / 5)) / (3 + 300))\<close> for \<^verbatim>\<open>d1\<close> and
  \<open>ln ((2 + 300 * (3 / 5)) / (2 + 300))\<close> for \<^verbatim>\<open>d2\<close>.
\<close>

theorem runQLQuery_score_formula_example:
  "runQLQuery (buildIndex example_corpus) [''dog'']
     = Inr (\<lparr>results = [\<lparr>document = ''d1'', score = PyFloat (ln (181 / 303))\<rparr>,
                         \<lparr>document = ''d2'', score = PyFloat (ln (91 / 151))\<rparr>],
             qmethod = ''QL''\<rparr>,
            snd (getTotalTokenCount (buildIndex example_corpus)))"
proof -
  let ?ix = "buildIndex example_corpus"
  have h: "or_documents ?ix [''dog''] [] \<noteq> [] \<Longrightarrow>
      0 < fst (getTotalTokenCount ?ix) \<and> (\<forall>w\<in>set [''dog'']. 0 < getTotalTokenFrequency ?ix w)"
    by (simp add: example_total example_dog)
  have v1: "spec_ql_score ?ix [''dog''] ''d1'' = ln (181 / 303)"
    by (simp add: spec_ql_score_def spec_ql_term_def example_total example_dog)
  have v2: "spec_ql_score ?ix [''dog''] ''d2'' = ln (91 / 151)"
    by (simp add: spec_ql_score_def spec_ql_term_def example_total example_dog)
  from runQLQuery_score_formula [OF h]
  have "runQLQuery ?ix [''dog'']
      = Inr (\<lparr>results = map (\<lambda>d. \<lparr>document = d, score = PyFloat (spec_ql_score ?ix [''dog''] d)\<rparr>)
                            (or_documents ?ix [''dog''] []),
              qmethod = ''QL''\<rparr>,
             if or_documents ?ix [''dog''] [] = [] then ?ix else snd (getTotalTokenCount ?ix))"
    by (rule conjunct1)
  then show ?thesis
    by (simp only: example_candidates_dog list.map v1 v2 list.distinct if_False)
qed

section \<open>BM25\<close>

lemma same_index_spec_bm25:
  assumes "same_index a b"
  shows "spec_bm25_K a = spec_bm25_K b"
    and "spec_bm25_term1 a = spec_bm25_term1 b"
    and "spec_bm25_term2 a = spec_bm25_term2 b"
    and "spec_bm25_product a = spec_bm25_product b"
    and "spec_bm25_nonzero a = spec_bm25_nonzero b"
    and "spec_bm25_skipping a = spec_bm25_skipping b"
    and "spec_bm25_always_adding a = spec_bm25_always_adding b"
    and "spec_bm25_score a = spec_bm25_score b"
proof -
  note acc = same_index_accessors [OF assms]
  show K: "spec_bm25_K a = spec_bm25_K b"
    by (rule ext) (simp only: spec_bm25_K_def spec_averageDocumentLength_def acc)
  show t1: "spec_bm25_term1 a = spec_bm25_term1 b"
    by (rule ext) (simp only: spec_bm25_term1_def acc)
  show t2: "spec_bm25_term2 a = spec_bm25_term2 b"
    by (rule ext, rule ext) (simp only: spec_bm25_term2_def K acc)
  show p: "spec_bm25_product a = spec_bm25_product b"
    by (rule ext, rule ext) (simp only: spec_bm25_product_def t1 t2)
  show n: "spec_bm25_nonzero a = spec_bm25_nonzero b"
    by (rule ext, rule ext) (simp only: spec_bm25_nonzero_def t1 t2)
  show "spec_bm25_skipping a = spec_bm25_skipping b"
    by (rule ext, rule ext) (simp only: spec_bm25_skipping_def p n)
  show "spec_bm25_always_adding a = spec_bm25_always_adding b"
    by (rule ext, rule ext) (simp only: spec_bm25_always_adding_def p)
  show "spec_bm25_score a = spec_bm25_score b"
    by (rule ext, rule ext) (simp only: spec_bm25_score_def t1 t2)
qed

lemma spec_bm25_term3_one: "spec_bm25_term3 = 1"
  by (simp add: spec_bm25_term3_def)

lemma spec_bm25_product_zero:
  "\<not> spec_bm25_nonzero ix d t \<Longrightarrow> spec_bm25_product ix d t = 0"
  by (auto simp: spec_bm25_nonzero_def spec_bm25_product_def)

lemma sum_list_filter_nonzero:
  "sum_list (map (spec_bm25_product ix d) (filter (spec_bm25_nonzero ix d) ws))
     = sum_list (map (spec_bm25_product ix d) ws)"
  by (induction ws) (simp_all add: spec_bm25_product_zero)

lemma spec_bm25_score_products:
  "spec_bm25_score ix ws d = sum_list (map (spec_bm25_product ix d) ws)"
proof -
  have "spec_bm25_product ix d
      = (\<lambda>t. spec_bm25_term1 ix t * spec_bm25_term2 ix d t * spec_bm25_term3)"
    by (rule ext) (simp only: spec_bm25_product_def)
  then show ?thesis
    by (simp only: spec_bm25_score_def)
qed

text \<open>
  The value of the score is the same whether the products with a zero factor are left
  out or added.
\<close>

lemma spec_bm25_values:
  "num_val (spec_bm25_skipping ix ws d) = spec_bm25_score ix ws d"
  "num_val (spec_bm25_always_adding ix ws d) = spec_bm25_score ix ws d"
  by (simp_all only: spec_bm25_skipping_def spec_bm25_always_adding_def num_val_accumulate
      sum_list_filter_nonzero spec_bm25_score_products)

text \<open>
  The Python number is not: when no product is added the score is still the int it was
  initialised with, and adding the zero products would have made it a float.
\<close>

lemma spec_bm25_all_skipped:
  assumes "ws \<noteq> []" "\<forall>t\<in>set ws. \<not> spec_bm25_nonzero ix d t"
  shows "spec_bm25_skipping ix ws d = PyInt 0"
    and "spec_bm25_always_adding ix ws d = PyFloat 0"
proof -
  from assms(2) have f: "filter (spec_bm25_nonzero ix d) ws = []"
    by (simp add: filter_empty_conv)
  then show "spec_bm25_skipping ix ws d = PyInt 0"
    by (simp add: spec_bm25_skipping_def accumulate_from_zero_value)
  have "sum_list (map (spec_bm25_product ix d) ws) = 0"
    using sum_list_filter_nonzero [of ix d ws] by (simp only: f) simp
  with assms(1) show "spec_bm25_always_adding ix ws d = PyFloat 0"
    by (simp add: spec_bm25_always_adding_def accumulate_from_zero_value)
qed

lemma spec_bm25_some_added:
  assumes "\<exists>t\<in>set ws. spec_bm25_nonzero ix d t"
  shows "spec_bm25_skipping ix ws d = PyFloat (spec_bm25_score ix ws d)"
    and "spec_bm25_always_adding ix ws d = PyFloat (spec_bm25_score ix ws d)"
proof -
  from assms have f: "filter (spec_bm25_nonzero ix d) ws \<noteq> []"
    by (simp add: filter_empty_conv)
  then show "spec_bm25_skipping ix ws d = PyFloat (spec_bm25_score ix ws d)"
    by (simp add: spec_bm25_skipping_def accumulate_from_zero_value sum_list_filter_nonzero
        spec_bm25_score_products)
  from assms have "ws \<noteq> []" by (cases ws) simp_all
  then show "spec_bm25_always_adding ix ws d = PyFloat (spec_bm25_score ix ws d)"
    by (simp add: spec_bm25_always_adding_def accumulate_from_zero_value
        spec_bm25_score_products)
qed

lemma spec_bm25_K_pos:
  assumes "0 < fst (getTotalTokenCount ix)" "0 < getNumberOfDocuments ix"
  shows "0 < spec_bm25_K ix d"
proof -
  have "0 \<le> real (getDocumentLength ix d) / spec_averageDocumentLength ix"
    by (simp add: spec_averageDocumentLength_def)
  then have "0 < (1 - 0.75) + 0.75 * (real (getDocumentLength ix d) / spec_averageDocumentLength ix)"
    by (intro add_pos_nonneg mult_nonneg_nonneg) simp_all
  then show ?thesis
    by (simp only: spec_bm25_K_def) simp
qed

lemma bm25_words_step:
  assumes n: "getTokenDocumentCount ix w \<le> getNumberOfDocuments ix"
    and K: "0 < spec_bm25_K ix d"
  shows "bm25_words ix d 1.8 5 (spec_bm25_K ix d) (w # ws) sc =
           bm25_words ix d 1.8 5 (spec_bm25_K ix d) ws
             (if spec_bm25_nonzero ix d w then iadd_float sc (spec_bm25_product ix d w) else sc)"
proof -
  let ?N = "real (getNumberOfDocuments ix)"
  let ?n = "real (getTokenDocumentCount ix w)"
  let ?f = "real (getTokenFrequencyInDocument ix w d)"
  from n have "?n \<le> ?N" by simp
  then have num: "0 < ?N - ?n + 0.5" by simp
  have den: "0 < ?n + 0.5"
    by (rule add_nonneg_pos [OF of_nat_0_le_iff]) simp
  from num den have x: "0 < (?N - ?n + 0.5) / (?n + 0.5)" by (rule divide_pos_pos)
  have d1: "py_div (?N - ?n + 0.5) (?n + 0.5) = Inr ((?N - ?n + 0.5) / (?n + 0.5))"
    using den by (simp add: py_div_def)
  have lg: "py_log ((?N - ?n + 0.5) / (?n + 0.5)) = Inr (spec_bm25_term1 ix w)"
    using x by (simp add: py_log_def spec_bm25_term1_def)
  have "0 < spec_bm25_K ix d + ?f"
    using K by (rule add_pos_nonneg) simp
  then have d2: "py_div ((1.8 + 1) * ?f) (spec_bm25_K ix d + ?f) = Inr (spec_bm25_term2 ix d w)"
    by (simp add: py_div_def spec_bm25_term2_def)
  have d3: "py_div ((5 + 1) * 1) (5 + 1) = Inr spec_bm25_term3"
    by (simp add: py_div_def spec_bm25_term3_def)
  show ?thesis
    by (simp only: bm25_words.simps Let_def d1 lg d2 d3 sum.case
        spec_bm25_nonzero_def spec_bm25_product_def)
qed

lemma bm25_words_fold:
  assumes n: "\<forall>w. getTokenDocumentCount ix w \<le> getNumberOfDocuments ix"
    and K: "0 < spec_bm25_K ix d"
  shows "bm25_words ix d 1.8 5 (spec_bm25_K ix d) ws sc
           = Inr (fold (\<lambda>x sc. iadd_float sc x)
                    (map (spec_bm25_product ix d) (filter (spec_bm25_nonzero ix d) ws)) sc)"
proof (induction ws arbitrary: sc)
  case Nil
  show ?case by simp
next
  case (Cons w ws)
  from n have nw: "getTokenDocumentCount ix w \<le> getNumberOfDocuments ix" by (rule spec)
  show ?case
    unfolding bm25_words_step [OF nw K] Cons.IH by simp
qed

lemma bm25_words_score:
  assumes "\<forall>w. getTokenDocumentCount ix w \<le> getNumberOfDocuments ix"
    and "0 < spec_bm25_K ix d"
  shows "bm25_words ix d 1.8 5 (spec_bm25_K ix d) ws (PyInt 0)
           = Inr (spec_bm25_skipping ix ws d)"
  by (simp only: bm25_words_fold [OF assms] spec_bm25_skipping_def accumulate_from_zero_def)

lemma getAverageDocumentLength_value:
  assumes "0 < getNumberOfDocuments ix"
  shows "getAverageDocumentLength ix
           = (Inr (spec_averageDocumentLength ix), snd (getTotalTokenCount ix))"
proof -
  have "getNumberOfDocuments (snd (getTotalTokenCount ix)) = getNumberOfDocuments ix"
    by (simp add: same_index_accessors(6) [OF same_index_getTotalTokenCount])
  with assms show ?thesis
    by (simp add: getAverageDocumentLength_def split_beta Let_def spec_averageDocumentLength_def)
qed

lemma bm25_documents_step:
  assumes N: "0 < getNumberOfDocuments ix" and T: "0 < fst (getTotalTokenCount ix)"
    and n: "\<forall>w. getTokenDocumentCount ix w \<le> getNumberOfDocuments ix"
  shows "bm25_documents ix ws 1.8 5 0.75 (d # ds) res =
           bm25_documents (snd (getTotalTokenCount ix)) ws 1.8 5 0.75 ds
             (QueryResults_add res d (spec_bm25_skipping ix ws d))"
proof -
  let ?ix1 = "snd (getTotalTokenCount ix)"
  have s1: "same_index ?ix1 ix" by (rule same_index_getTotalTokenCount)
  have avg: "spec_averageDocumentLength ix \<noteq> 0"
    using N T by (simp add: spec_averageDocumentLength_def)
  have d1: "py_div (real (getDocumentLength ix d)) (spec_averageDocumentLength ix)
      = Inr (real (getDocumentLength ix d) / spec_averageDocumentLength ix)"
    using avg by (simp add: py_div_def)
  have K: "1.8 * ((1 - 0.75) + 0.75 * (real (getDocumentLength ix d) / spec_averageDocumentLength ix))
      = spec_bm25_K ?ix1 d"
    by (simp only: spec_bm25_K_def same_index_spec_bm25(1) [OF s1])
  have n1: "\<forall>w. getTokenDocumentCount ?ix1 w \<le> getNumberOfDocuments ?ix1"
    using n by (simp add: same_index_accessors(3,6) [OF s1])
  have K1: "0 < spec_bm25_K ?ix1 d"
    unfolding same_index_spec_bm25(1) [OF s1] using T N by (rule spec_bm25_K_pos)
  have w: "bm25_words ?ix1 d 1.8 5 (spec_bm25_K ?ix1 d) ws (PyInt 0)
      = Inr (spec_bm25_skipping ix ws d)"
    by (simp only: bm25_words_score [OF n1 K1] same_index_spec_bm25(6) [OF s1])
  show ?thesis
    by (simp only: bm25_documents.simps Let_def getAverageDocumentLength_value [OF N]
        prod.case sum.case d1 K w)
qed

lemma bm25_documents_scores:
  assumes "0 < getNumberOfDocuments ix" "0 < fst (getTotalTokenCount ix)"
    "\<forall>w. getTokenDocumentCount ix w \<le> getNumberOfDocuments ix"
  shows "bm25_documents ix ws 1.8 5 0.75 ds res
           = Inr (res\<lparr>results := results res
                    @ map (\<lambda>d. \<lparr>document = d, score = spec_bm25_skipping ix ws d\<rparr>) ds\<rparr>,
                  if ds = [] then ix else snd (getTotalTokenCount ix))"
  using assms
proof (induction ds arbitrary: ix res)
  case Nil
  show ?case by simp
next
  case (Cons d ds)
  let ?ix1 = "snd (getTotalTokenCount ix)"
  let ?res1 = "QueryResults_add res d (spec_bm25_skipping ix ws d)"
  have s1: "same_index ?ix1 ix" by (rule same_index_getTotalTokenCount)
  have p1: "0 < getNumberOfDocuments ?ix1" "0 < fst (getTotalTokenCount ?ix1)"
    "\<forall>w. getTokenDocumentCount ?ix1 w \<le> getNumberOfDocuments ?ix1"
    using Cons.prems by (simp_all add: same_index_accessors(3,6,7) [OF s1])
  have state: "(if ds = [] then ?ix1 else snd (getTotalTokenCount ?ix1)) = ?ix1"
    by (simp add: filled_again)
  have "bm25_documents ix ws 1.8 5 0.75 (d # ds) res
          = bm25_documents ?ix1 ws 1.8 5 0.75 ds ?res1"
    using Cons.prems by (rule bm25_documents_step)
  also have "\<dots> = Inr (?res1\<lparr>results := results ?res1
                   @ map (\<lambda>d. \<lparr>document = d, score = spec_bm25_skipping ix ws d\<rparr>) ds\<rparr>,
                 ?ix1)"
    by (simp only: Cons.IH [OF p1] same_index_spec_bm25(6) [OF s1] state)
  finally show ?case
    by (simp add: QueryResults_add_def)
qed

section \<open>The ranked models on a built index\<close>

lemma built_document_count_bound:
  assumes "index_inv ix"
  shows "getTokenDocumentCount ix w \<le> getNumberOfDocuments ix"
proof (cases "map_of (index ix) w")
  case None
  then show ?thesis by (simp add: getTokenDocumentCount_def)
next
  case (Some ps)
  from assms have wf: "index_wf (index ix) (fst ` set (documents ix))"
    and len: "length (documents ix) \<le> docCount ix"
    by (simp_all add: index_inv_def)
  from index_wf_entry [OF wf Some]
  have "distinct (map fst ps)" "fst ` set ps \<subseteq> fst ` set (documents ix)"
    by (simp_all add: posting_ok_def)
  then have "length ps \<le> length (documents ix)"
    by (rule length_le_of_keys)
  with len Some show ?thesis
    by (simp add: getTokenDocumentCount_def getNumberOfDocuments_def)
qed

lemma built_candidates_positive:
  assumes inv: "index_inv ix" and cand: "or_documents ix ws [] \<noteq> []"
  shows "0 < fst (getTotalTokenCount ix)" and "0 < getNumberOfDocuments ix"
proof -
  from inv have wf: "index_wf (index ix) (fst ` set (documents ix))"
    and len: "length (documents ix) \<le> docCount ix"
    by (simp_all add: index_inv_def)
  from cand or_documents_no_postings [of ix ws]
  obtain w where "getDocumentIDsForToken ix w \<noteq> []" by blast
  then obtain ps where ps: "map_of (index ix) w = Some ps" and ne: "ps \<noteq> []"
    by (cases "map_of (index ix) w") (simp_all add: getDocumentIDsForToken_def)
  from ne obtain e where e: "e \<in> set ps" by (cases ps) auto
  from index_wf_entry [OF wf ps]
  have pos: "\<forall>e\<in>set ps. snd e \<noteq> []" and sub: "fst ` set ps \<subseteq> fst ` set (documents ix)"
    by (simp_all add: posting_ok_def)
  from pos e have len_e: "0 < length (snd e)" by simp
  have "length (snd e) \<in> set (map (length \<circ> snd) ps)"
    using e by (simp add: image_iff) (rule bexI [of _ e], simp_all)
  then have "length (snd e) \<le> postings_total ps"
    unfolding postings_total_def by (rule member_le_sum_list) simp
  with len_e have pt: "0 < postings_total ps" by (rule less_le_trans)
  have "(w, ps) \<in> set (index ix)"
    using ps by (rule map_of_SomeD)
  then have "postings_total ps \<in> set (map (postings_total \<circ> snd) (index ix))"
    by (simp add: image_iff) (rule bexI [of _ "(w, ps)"], simp_all)
  then have "postings_total ps \<le> index_total (index ix)"
    unfolding index_total_def by (rule member_le_sum_list) simp
  with pt have "0 < index_total (index ix)" by (rule less_le_trans)
  then show "0 < fst (getTotalTokenCount ix)"
    by (simp only: getTotalTokenCount_fresh [OF inv])
  from e sub have "documents ix \<noteq> []" by auto
  then have "0 < length (documents ix)" by simp
  from this len have "0 < docCount ix" by (rule less_le_trans)
  then show "0 < getNumberOfDocuments ix"
    by (simp only: getNumberOfDocuments_def)
qed

text \<open>
  An index as a query finds it: built from a corpus, and with the cache perhaps filled
  by an earlier query.
\<close>

lemma reachable_document_count_bound:
  assumes "index_inv b" "same_index ix b"
  shows "\<forall>w. getTokenDocumentCount ix w \<le> getNumberOfDocuments ix"
  using built_document_count_bound [OF assms(1)]
  by (simp add: same_index_accessors(3,6) [OF assms(2)])

lemma reachable_candidates_positive:
  assumes "index_inv b" "same_index ix b" "or_documents ix ws [] \<noteq> []"
  shows "0 < fst (getTotalTokenCount ix)" and "0 < getNumberOfDocuments ix"
proof -
  from assms(3) have c: "or_documents b ws [] \<noteq> []"
    by (simp add: same_index_or_documents [OF assms(2)])
  from built_candidates_positive(1) [OF assms(1) c] show "0 < fst (getTotalTokenCount ix)"
    by (simp only: same_index_accessors(7) [OF assms(2)])
  from built_candidates_positive(2) [OF assms(1) c] show "0 < getNumberOfDocuments ix"
    by (simp only: same_index_accessors(6) [OF assms(2)])
qed

lemma runBM25Query_reachable:
  assumes "index_inv b" "same_index ix b"
  shows "runBM25Query ix ws
           = Inr (\<lparr>results = map (\<lambda>d. \<lparr>document = d, score = spec_bm25_skipping ix ws d\<rparr>)
                               (or_documents ix ws []),
                   qmethod = ''BM25''\<rparr>,
                  if or_documents ix ws [] = [] then ix else snd (getTotalTokenCount ix))"
proof (cases "or_documents ix ws [] = []")
  case True
  then show ?thesis
    by (simp add: runBM25Query_def runBM25Query_k_def QueryResults_init_def)
next
  case False
  note pos = reachable_candidates_positive [OF assms False]
  note n = reachable_document_count_bound [OF assms]
  show ?thesis
    unfolding runBM25Query_def runBM25Query_k_def bm25_documents_scores [OF pos(2) pos(1) n]
    by (simp add: QueryResults_init_def)
qed

lemma runQLQuery_reachable:
  assumes "index_inv b" "same_index ix b"
    and present: "\<forall>w\<in>set ws. 0 < getTotalTokenFrequency ix w"
  shows "runQLQuery ix ws
           = Inr (\<lparr>results = map (\<lambda>d. \<lparr>document = d, score = PyFloat (spec_ql_score ix ws d)\<rparr>)
                               (or_documents ix ws []),
                   qmethod = ''QL''\<rparr>,
                  if or_documents ix ws [] = [] then ix else snd (getTotalTokenCount ix))"
proof (rule runQLQuery_scores)
  assume "or_documents ix ws [] \<noteq> []"
  from reachable_candidates_positive(1) [OF assms(1,2) this] present
  show "0 < fst (getTotalTokenCount ix) \<and> (\<forall>w\<in>set ws. 0 < getTotalTokenFrequency ix w)"
    by (rule conjI)
qed

lemma example_counts:
  "getNumberOfDocuments (buildIndex example_corpus) = 2"
  "getTokenDocumentCount (buildIndex example_corpus) ''cat'' = 1"
  "getTokenDocumentCount (buildIndex example_corpus) ''dog'' = 2"
  by code_simp+

lemma example_candidates_cat:
  "or_documents (buildIndex example_corpus) [''cat''] [] = [''d1'']"
  by code_simp

lemma example_cat_skipped: "\<not> spec_bm25_nonzero (buildIndex example_corpus) d ''cat''"
  by (simp add: spec_bm25_nonzero_def spec_bm25_term1_def example_counts)

text \<open>
  The query \<^verbatim>\<open>['cat']\<close> on the corpus of two documents. \<^verbatim>\<open>cat\<close> is in one of the two
  documents, so \<open>term1 = ln ((2 - 1 + 0.5) / (1 + 0.5)) = ln 1 = 0\<close> and the only
  product is skipped: the score of \<^verbatim>\<open>d1\<close> is the int \<open>0\<close> it was initialised with,
  which is printed \<^verbatim>\<open>0\<close>. Had the product been added, the score would be the float
  \<open>0.0\<close>, printed \<^verbatim>\<open>0.0\<close>.
\<close>

theorem runBM25Query_skip_counterexample:
  "runBM25Query (buildIndex example_corpus) [''cat'']
     = Inr (\<lparr>results = [\<lparr>document = ''d1'', score = PyInt 0\<rparr>], qmethod = ''BM25''\<rparr>,
            snd (getTotalTokenCount (buildIndex example_corpus)))
   \<and> spec_bm25_always_adding (buildIndex example_corpus) [''cat''] ''d1'' = PyFloat 0
   \<and> PyInt 0 \<noteq> PyFloat 0"
proof -
  let ?ix = "buildIndex example_corpus"
  have skipped: "\<forall>t\<in>set [''cat'']. \<not> spec_bm25_nonzero ?ix ''d1'' t"
    by (simp add: example_cat_skipped)
  have ne: "[''cat''] \<noteq> ([] :: string list)" by simp
  note vals = spec_bm25_all_skipped [OF ne skipped]
  have "runBM25Query ?ix [''cat'']
      = Inr (\<lparr>results = map (\<lambda>d. \<lparr>document = d, score = spec_bm25_skipping ?ix [''cat''] d\<rparr>)
                            (or_documents ?ix [''cat''] []),
              qmethod = ''BM25''\<rparr>,
             if or_documents ?ix [''cat''] [] = [] then ?ix else snd (getTotalTokenCount ?ix))"
    using index_inv_buildIndex same_index_refl by (rule runBM25Query_reachable)
  then have run: "runBM25Query ?ix [''cat'']
      = Inr (\<lparr>results = [\<lparr>document = ''d1'', score = PyInt 0\<rparr>], qmethod = ''BM25''\<rparr>,
             snd (getTotalTokenCount ?ix))"
    by (simp only: example_candidates_cat list.map vals(1) list.distinct if_False)
  have diff: "PyInt 0 \<noteq> PyFloat 0" by simp
  show ?thesis
    by (intro conjI) (rule run, rule vals(2), rule diff)
qed

text \<open>
  C2, as the program behaves. For every index built from a corpus, with the cache
  empty or filled by an earlier query, and every list of query terms,
  \<^verbatim>\<open>runBM25Query\<close> (with \<open>k1 = 1.8\<close>, \<open>k2 = 5\<close>, \<open>b = 0.75\<close>, query frequency 1)
  raises nothing and leaves an index of the same kind. It gives each candidate
  document once, the candidates being the documents that hold a query term. The score
  of a candidate is what the accumulation of \<open>term1 * term2 * term3\<close> over the query
  terms leaves, once per occurrence, with \<open>K\<close> computed once for the document, where a
  product is added only when its three factors are not zero. The value of that score is
  the sum of all the products, and so is the value that adding every product would
  give. The two are the same Python number when some product of the candidate is
  added. When every product of the candidate is skipped they differ: the score is the
  int \<open>0\<close>, and adding every product would give the float \<open>0.0\<close>.
\<close>

theorem runBM25Query_score_formula:
  assumes "same_index ix (buildIndex corpus)"
  shows "runBM25Query ix qwords
           = Inr (\<lparr>results = map (\<lambda>d. \<lparr>document = d, score = spec_bm25_skipping ix qwords d\<rparr>)
                               (or_documents ix qwords []),
                   qmethod = ''BM25''\<rparr>,
                  if or_documents ix qwords [] = [] then ix else snd (getTotalTokenCount ix))
       \<and> same_index (snd (getTotalTokenCount ix)) (buildIndex corpus)
       \<and> distinct (or_documents ix qwords [])
       \<and> set (or_documents ix qwords [])
            = (\<Union>w\<in>set qwords. set (getDocumentIDsForToken ix w))
       \<and> (\<forall>d. num_val (spec_bm25_skipping ix qwords d) = spec_bm25_score ix qwords d
              \<and> num_val (spec_bm25_always_adding ix qwords d) = spec_bm25_score ix qwords d)
       \<and> (\<forall>d. (\<exists>t\<in>set qwords. spec_bm25_nonzero ix d t) \<longrightarrow>
              spec_bm25_skipping ix qwords d = spec_bm25_always_adding ix qwords d)
       \<and> (\<forall>d. qwords \<noteq> [] \<and> (\<forall>t\<in>set qwords. \<not> spec_bm25_nonzero ix d t) \<longrightarrow>
              spec_bm25_skipping ix qwords d = PyInt 0
              \<and> spec_bm25_always_adding ix qwords d = PyFloat 0)"
proof -
  have run: "runBM25Query ix qwords
      = Inr (\<lparr>results = map (\<lambda>d. \<lparr>document = d, score = spec_bm25_skipping ix qwords d\<rparr>)
                            (or_documents ix qwords []),
              qmethod = ''BM25''\<rparr>,
             if or_documents ix qwords [] = [] then ix else snd (getTotalTokenCount ix))"
    using index_inv_buildIndex assms by (rule runBM25Query_reachable)
  have s: "same_index (snd (getTotalTokenCount ix)) (buildIndex corpus)"
    using same_index_getTotalTokenCount assms by (rule same_index_trans)
  have d: "distinct (or_documents ix qwords [])"
    by (rule distinct_or_documents) simp
  have u: "set (or_documents ix qwords []) = (\<Union>w\<in>set qwords. set (getDocumentIDsForToken ix w))"
    by (simp add: set_or_documents)
  have v: "\<forall>d. num_val (spec_bm25_skipping ix qwords d) = spec_bm25_score ix qwords d
      \<and> num_val (spec_bm25_always_adding ix qwords d) = spec_bm25_score ix qwords d"
    by (simp only: spec_bm25_values) simp
  have same: "\<forall>d. (\<exists>t\<in>set qwords. spec_bm25_nonzero ix d t) \<longrightarrow>
      spec_bm25_skipping ix qwords d = spec_bm25_always_adding ix qwords d"
  proof (intro allI impI)
    fix d assume "\<exists>t\<in>set qwords. spec_bm25_nonzero ix d t"
    then show "spec_bm25_skipping ix qwords d = spec_bm25_always_adding ix qwords d"
      by (simp only: spec_bm25_some_added)
  qed
  have differ: "\<forall>d. qwords \<noteq> [] \<and> (\<forall>t\<in>set qwords. \<not> spec_bm25_nonzero ix d t) \<longrightarrow>
      spec_bm25_skipping ix qwords d = PyInt 0 \<and> spec_bm25_always_adding ix qwords d = PyFloat 0"
  proof (intro allI impI, elim conjE)
    fix d assume "qwords \<noteq> []" "\<forall>t\<in>set qwords. \<not> spec_bm25_nonzero ix d t"
    then show "spec_bm25_skipping ix qwords d = PyInt 0
        \<and> spec_bm25_always_adding ix qwords d = PyFloat 0"
      by (intro conjI spec_bm25_all_skipped)
  qed
  show ?thesis
    by (intro conjI) (rule run, rule s, rule d, rule u, rule v, rule same, rule differ)
qed

lemma example_bm25_dog:
  "spec_bm25_term1 (buildIndex example_corpus) ''dog'' = ln (1 / 5)"
  "spec_bm25_term2 (buildIndex example_corpus) ''d1'' ''dog'' = 280 / 307"
  "spec_bm25_term2 (buildIndex example_corpus) ''d2'' ''dog'' = 560 / 353"
  by (simp_all add: spec_bm25_term1_def spec_bm25_term2_def spec_bm25_K_def
      spec_averageDocumentLength_def example_total example_counts example_dog)

lemma example_dog_added:
  "spec_bm25_nonzero (buildIndex example_corpus) ''d1'' ''dog''"
  "spec_bm25_nonzero (buildIndex example_corpus) ''d2'' ''dog''"
proof -
  have "ln (1 / 5 :: real) < 0"
    by (rule ln_less_zero) simp_all
  then have "ln (1 / 5 :: real) \<noteq> 0" by simp
  then show "spec_bm25_nonzero (buildIndex example_corpus) ''d1'' ''dog''"
    "spec_bm25_nonzero (buildIndex example_corpus) ''d2'' ''dog''"
    by (simp_all only: spec_bm25_nonzero_def example_bm25_dog spec_bm25_term3_one) simp_all
qed

lemma example_bm25_scores:
  "spec_bm25_skipping (buildIndex example_corpus) [''dog''] ''d1''
     = PyFloat (ln (1 / 5) * (280 / 307))"
  "spec_bm25_skipping (buildIndex example_corpus) [''dog''] ''d2''
     = PyFloat (ln (1 / 5) * (560 / 353))"
proof -
  let ?b = "buildIndex example_corpus"
  have v1: "spec_bm25_score ?b [''dog''] ''d1'' = ln (1 / 5) * (280 / 307)"
    by (simp add: spec_bm25_score_def example_bm25_dog spec_bm25_term3_one)
  have v2: "spec_bm25_score ?b [''dog''] ''d2'' = ln (1 / 5) * (560 / 353)"
    by (simp add: spec_bm25_score_def example_bm25_dog spec_bm25_term3_one)
  have a1: "\<exists>t\<in>set [''dog'']. spec_bm25_nonzero ?b ''d1'' t"
    using example_dog_added(1) by simp
  have a2: "\<exists>t\<in>set [''dog'']. spec_bm25_nonzero ?b ''d2'' t"
    using example_dog_added(2) by simp
  show "spec_bm25_skipping ?b [''dog''] ''d1'' = PyFloat (ln (1 / 5) * (280 / 307))"
    by (simp only: spec_bm25_some_added(1) [OF a1] v1)
  show "spec_bm25_skipping ?b [''dog''] ''d2'' = PyFloat (ln (1 / 5) * (560 / 353))"
    by (simp only: spec_bm25_some_added(1) [OF a2] v2)
qed

theorem runBM25Query_score_formula_witness:
  "same_index (snd (getTotalTokenCount (buildIndex example_corpus))) (buildIndex example_corpus)
   \<and> runBM25Query (snd (getTotalTokenCount (buildIndex example_corpus))) [''dog'']
       = Inr (\<lparr>results = [\<lparr>document = ''d1'', score = PyFloat (ln (1 / 5) * (280 / 307))\<rparr>,
                           \<lparr>document = ''d2'', score = PyFloat (ln (1 / 5) * (560 / 353))\<rparr>],
               qmethod = ''BM25''\<rparr>,
              snd (getTotalTokenCount (buildIndex example_corpus)))"
proof -
  let ?b = "buildIndex example_corpus"
  let ?f = "snd (getTotalTokenCount ?b)"
  have h: "same_index ?f ?b" by (rule same_index_getTotalTokenCount)
  have cands: "or_documents ?f [''dog''] [] = [''d1'', ''d2'']"
    by (simp only: same_index_or_documents [OF h] example_candidates_dog)
  from runBM25Query_score_formula [OF h, of "[''dog'']"]
  have "runBM25Query ?f [''dog'']
      = Inr (\<lparr>results = map (\<lambda>d. \<lparr>document = d, score = spec_bm25_skipping ?f [''dog''] d\<rparr>)
                            (or_documents ?f [''dog''] []),
              qmethod = ''BM25''\<rparr>,
             if or_documents ?f [''dog''] [] = [] then ?f else snd (getTotalTokenCount ?f))"
    by (rule conjunct1)
  then have run: "runBM25Query ?f [''dog'']
      = Inr (\<lparr>results = [\<lparr>document = ''d1'', score = PyFloat (ln (1 / 5) * (280 / 307))\<rparr>,
                          \<lparr>document = ''d2'', score = PyFloat (ln (1 / 5) * (560 / 353))\<rparr>],
              qmethod = ''BM25''\<rparr>, ?f)"
    by (simp only: cands list.map same_index_spec_bm25(6) [OF h] example_bm25_scores
        list.distinct if_False filled_again)
  from h run show ?thesis by (rule conjI)
qed

section \<open>A query term that is not in the index\<close>

lemma ql_words_absent_step:
  assumes "0 < fst (getTotalTokenCount ix)" "getTotalTokenFrequency ix w = 0"
    "getTokenFrequencyInDocument ix w d = 0"
  shows "ql_words ix d 300 (w # ws) sc = Inl ValueError"
proof -
  obtain T ix1 where t: "getTotalTokenCount ix = (T, ix1)"
    by (cases "getTotalTokenCount ix")
  with assms(1) have "T \<noteq> 0" by simp
  then show ?thesis
    by (simp add: t assms(2,3) py_div_def py_log_def)
qed

lemma ql_words_absent_raises:
  assumes "0 < fst (getTotalTokenCount ix)"
    and "\<exists>w\<in>set ws. getTotalTokenFrequency ix w = 0"
    and "\<forall>w\<in>set ws. getTotalTokenFrequency ix w = 0 \<longrightarrow> getTokenFrequencyInDocument ix w d = 0"
  shows "ql_words ix d 300 ws sc = Inl ValueError"
  using assms
proof (induction ws arbitrary: ix sc)
  case Nil
  then show ?case by simp
next
  case (Cons w ws)
  show ?case
  proof (cases "getTotalTokenFrequency ix w = 0")
    case True
    with Cons.prems(3) have "getTokenFrequencyInDocument ix w d = 0" by simp
    with Cons.prems(1) True show ?thesis by (rule ql_words_absent_step)
  next
    case False
    then have w: "0 < getTotalTokenFrequency ix w" by simp
    let ?ix1 = "snd (getTotalTokenCount ix)"
    have s1: "same_index ?ix1 ix" by (rule same_index_getTotalTokenCount)
    note acc = same_index_accessors(1,2,7) [OF s1]
    from Cons.prems(2) False have "\<exists>w\<in>set ws. getTotalTokenFrequency ix w = 0" by simp
    then have p2: "\<exists>w\<in>set ws. getTotalTokenFrequency ?ix1 w = 0"
      by (simp only: acc)
    from Cons.prems(3)
    have "\<forall>w\<in>set ws. getTotalTokenFrequency ix w = 0 \<longrightarrow> getTokenFrequencyInDocument ix w d = 0"
      by simp
    then have p3: "\<forall>w\<in>set ws. getTotalTokenFrequency ?ix1 w = 0
        \<longrightarrow> getTokenFrequencyInDocument ?ix1 w d = 0"
      by (simp only: acc)
    from Cons.prems(1) have p1: "0 < fst (getTotalTokenCount ?ix1)"
      by (simp only: acc)
    have "ql_words ix d 300 (w # ws) sc
        = ql_words ?ix1 d 300 ws (iadd_float sc (spec_ql_term ix d w))"
      using Cons.prems(1) w by (rule ql_words_step)
    also have "\<dots> = Inl ValueError"
      using p1 p2 p3 by (rule Cons.IH)
    finally show ?thesis .
  qed
qed

lemma example_zebra:
  "getTotalTokenFrequency (buildIndex example_corpus) ''zebra'' = 0"
  "getTokenFrequencyInDocument (buildIndex example_corpus) ''zebra'' d = 0"
  by (simp_all add: getTotalTokenFrequency_def getTokenFrequencyInDocument_def
      example_absent_zebra)

lemma example_candidates_dog_zebra:
  "or_documents (buildIndex example_corpus) [''dog'', ''zebra''] [] = [''d1'', ''d2'']"
  by code_simp

text \<open>
  C4 at a concrete input. The query is \<^verbatim>\<open>['dog', 'zebra']\<close> on the corpus of two
  documents, and \<^verbatim>\<open>zebra\<close> is in no document. \<^verbatim>\<open>runORQuery\<close> returns the two
  documents that hold \<^verbatim>\<open>dog\<close>. \<^verbatim>\<open>runQLQuery\<close> has the same two candidates, but
  for \<^verbatim>\<open>zebra\<close> the numerator is 0 and \<^verbatim>\<open>math.log\<close> raises \<^verbatim>\<open>ValueError\<close>: it
  returns no documents at all.
\<close>

theorem candidate_sets_absent_term_raises:
  "[''dog'', ''zebra''] \<noteq> ([] :: string list)
   \<and> set (map document (results (runORQuery (buildIndex example_corpus) [''dog'', ''zebra''])))
        = {''d1'', ''d2''}
   \<and> runQLQuery (buildIndex example_corpus) [''dog'', ''zebra''] = Inl ValueError"
proof -
  let ?ix = "buildIndex example_corpus"
  have T: "0 < fst (getTotalTokenCount ?ix)"
    by (simp add: example_total)
  have a: "\<exists>w\<in>set [''dog'', ''zebra'']. getTotalTokenFrequency ?ix w = 0"
    by (simp add: example_zebra)
  have b: "\<forall>w\<in>set [''dog'', ''zebra'']. getTotalTokenFrequency ?ix w = 0
      \<longrightarrow> getTokenFrequencyInDocument ?ix w ''d1'' = 0"
    by (simp add: example_zebra example_dog)
  have w: "ql_words ?ix ''d1'' 300 [''dog'', ''zebra''] (PyInt 0) = Inl ValueError"
    using T a b by (rule ql_words_absent_raises)
  have ql: "runQLQuery ?ix [''dog'', ''zebra''] = Inl ValueError"
    by (simp only: runQLQuery_def runQLQuery_u_def example_candidates_dog_zebra
        ql_documents.simps w sum.case)
  have "map document (results (runORQuery ?ix [''dog'', ''zebra''])) = [''d1'', ''d2'']"
    by (simp only: results_runORQuery example_candidates_dog_zebra) simp
  then have orq: "set (map document (results (runORQuery ?ix [''dog'', ''zebra''])))
      = {''d1'', ''d2''}"
    by simp
  have ne: "[''dog'', ''zebra''] \<noteq> ([] :: string list)" by simp
  show ?thesis
    by (intro conjI) (rule ne, rule orq, rule ql)
qed

section \<open>The candidate documents of the four models\<close>

lemma and_subset_or:
  "set (and_documents ix ws [] True) \<subseteq> set (or_documents ix ws [])"
proof (cases ws)
  case Nil
  then show ?thesis by simp
next
  case (Cons w ws')
  then have ne: "ws \<noteq> []" and w: "w \<in> set ws" by simp_all
  have "set (and_documents ix ws [] True) \<subseteq> set (getDocumentIDsForToken ix w)"
    unfolding set_and_documents [OF ne] using w by (rule INT_lower)
  also have "\<dots> \<subseteq> (\<Union>w\<in>set ws. set (getDocumentIDsForToken ix w))"
    using w by (rule UN_upper)
  also have "\<dots> = set (or_documents ix ws [])"
    by (simp add: set_or_documents)
  finally show ?thesis .
qed

text \<open>
  What holds of the candidate documents on every index built from a corpus, with the
  cache empty or filled, and every list of query terms: \<^verbatim>\<open>runORQuery\<close> and
  \<^verbatim>\<open>runBM25Query\<close> return exactly the documents that hold at least one query term,
  \<^verbatim>\<open>runORQuery\<close> gives each the score 1, and the documents of \<^verbatim>\<open>runANDQuery\<close> are
  among those of \<^verbatim>\<open>runORQuery\<close>. When every query term occurs in the index,
  \<^verbatim>\<open>runQLQuery\<close> returns the same documents too.
\<close>

theorem candidate_sets_agree:
  assumes "same_index ix (buildIndex corpus)"
  shows "set (map document (results (runORQuery ix qwords)))
           = (\<Union>w\<in>set qwords. set (getDocumentIDsForToken ix w))
       \<and> (\<forall>r\<in>set (results (runORQuery ix qwords)). score r = PyInt 1)
       \<and> set (map document (results (runANDQuery ix qwords)))
           \<subseteq> set (map document (results (runORQuery ix qwords)))
       \<and> (\<exists>res ix'. runBM25Query ix qwords = Inr (res, ix')
             \<and> set (map document (results res))
                 = (\<Union>w\<in>set qwords. set (getDocumentIDsForToken ix w)))
       \<and> ((\<forall>w\<in>set qwords. 0 < getTotalTokenFrequency ix w) \<longrightarrow>
           (\<exists>res ix'. runQLQuery ix qwords = Inr (res, ix')
             \<and> set (map document (results res))
                 = (\<Union>w\<in>set qwords. set (getDocumentIDsForToken ix w))))"
proof -
  let ?U = "\<Union>w\<in>set qwords. set (getDocumentIDsForToken ix w)"
  have inv: "index_inv (buildIndex corpus)" by (rule index_inv_buildIndex)
  have or_docs: "map document (results (runORQuery ix qwords)) = or_documents ix qwords []"
    by (simp add: results_runORQuery comp_def)
  have and_docs: "map document (results (runANDQuery ix qwords))
      = and_documents ix qwords [] True"
    by (simp add: results_runANDQuery comp_def)
  have c1: "set (map document (results (runORQuery ix qwords))) = ?U"
    unfolding or_docs by (simp add: set_or_documents)
  have c2: "\<forall>r\<in>set (results (runORQuery ix qwords)). score r = PyInt 1"
    by (simp add: results_runORQuery)
  have c3: "set (map document (results (runANDQuery ix qwords)))
      \<subseteq> set (map document (results (runORQuery ix qwords)))"
    unfolding or_docs and_docs by (rule and_subset_or)
  have c4: "\<exists>res ix'. runBM25Query ix qwords = Inr (res, ix')
      \<and> set (map document (results res)) = ?U"
  proof -
    have "set (map document (results \<lparr>results = map (\<lambda>d. \<lparr>document = d,
                     score = spec_bm25_skipping ix qwords d\<rparr>) (or_documents ix qwords []),
                qmethod = ''BM25''\<rparr>)) = ?U"
      by (simp add: comp_def set_or_documents)
    with runBM25Query_reachable [OF inv assms, of qwords] show ?thesis
      by (intro exI conjI)
  qed
  have c5: "\<exists>res ix'. runQLQuery ix qwords = Inr (res, ix')
      \<and> set (map document (results res)) = ?U"
    if present: "\<forall>w\<in>set qwords. 0 < getTotalTokenFrequency ix w"
  proof -
    have "set (map document (results \<lparr>results = map (\<lambda>d. \<lparr>document = d,
                     score = PyFloat (spec_ql_score ix qwords d)\<rparr>) (or_documents ix qwords []),
                qmethod = ''QL''\<rparr>)) = ?U"
      by (simp add: comp_def set_or_documents)
    with runQLQuery_reachable [OF inv assms present] show ?thesis
      by (intro exI conjI)
  qed
  show ?thesis
    by (intro conjI impI) (rule c1, rule c2, rule c3, rule c4, rule c5)
qed

lemma example_cat_total: "getTotalTokenFrequency (buildIndex example_corpus) ''cat'' = 2"
  by code_simp

theorem candidate_sets_agree_example:
  "set (map document (results (runORQuery (buildIndex example_corpus) [''cat'', ''dog''])))
        = {''d1'', ''d2''}
   \<and> (\<exists>res ix'. runQLQuery (buildIndex example_corpus) [''cat'', ''dog''] = Inr (res, ix')
         \<and> set (map document (results res)) = {''d1'', ''d2''})
   \<and> (\<exists>res ix'. runBM25Query (buildIndex example_corpus) [''cat'', ''dog''] = Inr (res, ix')
         \<and> set (map document (results res)) = {''d1'', ''d2''})"
proof -
  let ?ix = "buildIndex example_corpus"
  let ?U = "\<Union>w\<in>set [''cat'', ''dog'']. set (getDocumentIDsForToken ?ix w)"
  have cat: "0 < getTotalTokenFrequency ?ix ''cat''" by (simp add: example_cat_total)
  have dog: "0 < getTotalTokenFrequency ?ix ''dog''" by (simp add: example_dog)
  from cat dog have present: "\<forall>w\<in>set [''cat'', ''dog'']. 0 < getTotalTokenFrequency ?ix w"
    by simp
  have u: "?U = {''d1'', ''d2''}"
    by (simp add: example_ids_cat example_ids_dog insert_commute)
  note inst = candidate_sets_agree [OF same_index_refl, of example_corpus "[''cat'', ''dog'']"]
  from inst have "set (map document (results (runORQuery ?ix [''cat'', ''dog'']))) = ?U"
    by (rule conjunct1)
  then have a: "set (map document (results (runORQuery ?ix [''cat'', ''dog'']))) = {''d1'', ''d2''}"
    by (simp only: u)
  from inst have "\<exists>res ix'. runBM25Query ?ix [''cat'', ''dog''] = Inr (res, ix')
      \<and> set (map document (results res)) = ?U"
    by (elim conjE)
  then have b: "\<exists>res ix'. runBM25Query ?ix [''cat'', ''dog''] = Inr (res, ix')
      \<and> set (map document (results res)) = {''d1'', ''d2''}"
    by (simp only: u)
  from inst have "(\<forall>w\<in>set [''cat'', ''dog'']. 0 < getTotalTokenFrequency ?ix w) \<longrightarrow>
      (\<exists>res ix'. runQLQuery ?ix [''cat'', ''dog''] = Inr (res, ix')
         \<and> set (map document (results res)) = ?U)"
    by (elim conjE)
  from mp [OF this present]
  have c: "\<exists>res ix'. runQLQuery ?ix [''cat'', ''dog''] = Inr (res, ix')
      \<and> set (map document (results res)) = {''d1'', ''d2''}"
    by (simp only: u)
  show ?thesis
    by (intro conjI) (rule a, rule c, rule b)
qed

section \<open>The order of the query terms, in exact arithmetic\<close>

text \<open>
  The two sums of the specification, taken over the real numbers, do not depend on the
  order of the query terms, and a term that is appended once more adds its own
  contribution once more. The program adds IEEE doubles in the order of the query, and
  that addition is rounded; what these facts say of the program's floats is left open.
\<close>

lemma sum_list_map_permutation:
  fixes f :: "'a \<Rightarrow> real"
  assumes "mset xs = mset ys"
  shows "sum_list (map f xs) = sum_list (map f ys)"
proof -
  have "mset (map f xs) = mset (map f ys)"
    using assms by simp
  then have "sum_mset (mset (map f xs)) = sum_mset (mset (map f ys))"
    by (rule arg_cong)
  then show ?thesis
    by (simp only: sum_mset_sum_list)
qed

lemma spec_scores_permutation:
  assumes "mset ws = mset ws'"
  shows "spec_ql_score ix ws d = spec_ql_score ix ws' d"
    and "spec_bm25_score ix ws d = spec_bm25_score ix ws' d"
  unfolding spec_ql_score_def spec_bm25_score_def
  by (rule sum_list_map_permutation [OF assms])+

lemma spec_scores_repeat:
  "spec_ql_score ix (ws @ [t]) d = spec_ql_score ix ws d + spec_ql_term ix d t"
  "spec_bm25_score ix (ws @ [t]) d
     = spec_bm25_score ix ws d
       + spec_bm25_term1 ix t * spec_bm25_term2 ix d t * spec_bm25_term3"
  by (simp_all add: spec_ql_score_def spec_bm25_score_def)

end
